theory Spec2Isabelle
  imports Complex_Main "HOL-Library.Word" "HOL-Library.Multiset"
begin

unbundle bit_operations_syntax

section \<open>Calibration record and its persistent image\<close>

text \<open>
  The firmware keeps the calibration in a file-scope struct
  \<^verbatim>\<open>struct CalData { uint32_t magic; uint16_t clearRaw; uint16_t cloudyRaw; uint16_t crc; }\<close>
  together with the flag \<^verbatim>\<open>calLoaded\<close> and the stage of the calibration flow.
\<close>

type_synonym u8 = "8 word"
type_synonym u16 = "16 word"
type_synonym u32 = "32 word"

record CalData =
  magic :: u32
  clearRaw :: u16
  cloudyRaw :: u16
  crc :: u16

definition CAL_MAGIC :: u32 where
  "CAL_MAGIC = 0x54555242"

definition EEPROM_ADDR :: nat where
  "EEPROM_ADDR = 0"

datatype CalStage = CAL_NONE | CAL_WAIT_CLEAR | CAL_WAIT_CLOUDY | CAL_DONE

text \<open>
  \<^verbatim>\<open>checksum16\<close>: the accumulator is a \<^verbatim>\<open>uint32_t\<close>; each summand is a 16-bit value
  widened to 32 bits, and the result is the low half of the sum.
\<close>

definition checksum16 :: "CalData \<Rightarrow> u16" where
  "checksum16 d =
     (let sum0 = (0 :: u32);
          sum1 = sum0 + ucast (ucast (magic d AND 0xFFFF) :: u16);
          sum2 = sum1 + ucast (ucast (drop_bit 16 (magic d) AND 0xFFFF) :: u16);
          sum3 = sum2 + ucast (clearRaw d);
          sum4 = sum3 + ucast (cloudyRaw d)
      in ucast (sum4 AND 0xFFFF))"

text \<open>
  The EEPROM is an array of bytes indexed by address. \<^verbatim>\<open>EEPROM.get\<close> and
  \<^verbatim>\<open>EEPROM.put\<close> copy the object representation of the struct byte by byte; on the
  little-endian target the fields lie at offsets 0 (magic, 4 bytes), 4 (clearRaw), 6
  (cloudyRaw) and 8 (crc). The two trailing padding bytes of the 12-byte object are copied
  along by the library but never inspected by the firmware; they are left out of the model.
\<close>

type_synonym eeprom = "nat \<Rightarrow> u8"

definition le16 :: "u8 \<Rightarrow> u8 \<Rightarrow> u16" where
  "le16 b0 b1 = word_of_nat (unat b0 + 256 * unat b1)"

definition le32 :: "u8 \<Rightarrow> u8 \<Rightarrow> u8 \<Rightarrow> u8 \<Rightarrow> u32" where
  "le32 b0 b1 b2 b3 =
     word_of_nat (unat b0 + 256 * unat b1 + 65536 * unat b2 + 16777216 * unat b3)"

definition byte_of_u16 :: "nat \<Rightarrow> u16 \<Rightarrow> u8" where
  "byte_of_u16 k w = word_of_nat (unat w div 256 ^ k mod 256)"

definition byte_of_u32 :: "nat \<Rightarrow> u32 \<Rightarrow> u8" where
  "byte_of_u32 k w = word_of_nat (unat w div 256 ^ k mod 256)"

definition EEPROM_get :: "eeprom \<Rightarrow> nat \<Rightarrow> CalData" where
  "EEPROM_get e a =
     \<lparr> magic = le32 (e a) (e (a + 1)) (e (a + 2)) (e (a + 3)),
       clearRaw = le16 (e (a + 4)) (e (a + 5)),
       cloudyRaw = le16 (e (a + 6)) (e (a + 7)),
       crc = le16 (e (a + 8)) (e (a + 9)) \<rparr>"

definition EEPROM_put :: "eeprom \<Rightarrow> nat \<Rightarrow> CalData \<Rightarrow> eeprom" where
  "EEPROM_put e a d =
     e (a := byte_of_u32 0 (magic d), a + 1 := byte_of_u32 1 (magic d),
        a + 2 := byte_of_u32 2 (magic d), a + 3 := byte_of_u32 3 (magic d),
        a + 4 := byte_of_u16 0 (clearRaw d), a + 5 := byte_of_u16 1 (clearRaw d),
        a + 6 := byte_of_u16 0 (cloudyRaw d), a + 7 := byte_of_u16 1 (cloudyRaw d),
        a + 8 := byte_of_u16 0 (crc d), a + 9 := byte_of_u16 1 (crc d))"

text \<open>The file-scope variables the calibration code reads and writes, with the EEPROM.\<close>

record fw_state =
  cal :: CalData
  calLoaded :: bool
  calStage :: CalStage
  EEPROM :: eeprom

definition loadCalibration :: "fw_state \<Rightarrow> fw_state" where
  "loadCalibration s =
     (let s1 = s\<lparr>cal := EEPROM_get (EEPROM s) EEPROM_ADDR\<rparr> in
      if magic (cal s1) \<noteq> CAL_MAGIC then s1\<lparr>calLoaded := False\<rparr>
      else if crc (cal s1) \<noteq> checksum16 (cal s1) then s1\<lparr>calLoaded := False\<rparr>
      else if clearRaw (cal s1) = cloudyRaw (cal s1) then s1\<lparr>calLoaded := False\<rparr>
      else s1\<lparr>calLoaded := True\<rparr>)"

definition saveCalibration :: "u16 \<Rightarrow> u16 \<Rightarrow> fw_state \<Rightarrow> fw_state" where
  "saveCalibration clearRaw' cloudyRaw' s =
     (let c1 = (cal s)\<lparr>magic := CAL_MAGIC\<rparr>;
          c2 = c1\<lparr>clearRaw := clearRaw'\<rparr>;
          c3 = c2\<lparr>cloudyRaw := cloudyRaw'\<rparr>;
          c4 = c3\<lparr>crc := checksum16 c3\<rparr>
      in s\<lparr>cal := c4, EEPROM := EEPROM_put (EEPROM s) EEPROM_ADDR c4, calLoaded := True\<rparr>)"

section \<open>Classifier\<close>

definition THRESH_CLEAR :: int where
  "THRESH_CLEAR = 30"

definition THRESH_MODERATE :: int where
  "THRESH_MODERATE = 70"

definition classifyStatus :: "int \<Rightarrow> string" where
  "classifyStatus idx =
     (if idx < THRESH_CLEAR then ''CLEAR''
      else if idx < THRESH_MODERATE then ''MODERATE''
      else ''TURBID'')"

section \<open>Sampler\<close>

text \<open>
  \<^verbatim>\<open>insertionSort(uint16_t *arr, uint8_t n)\<close> sorts in place. The inner \<^verbatim>\<open>while\<close> loop
  runs on the \<^verbatim>\<open>int\<close> index \<open>j\<close> and shifts the larger elements one place up; its
  last statement \<^verbatim>\<open>arr[j + 1] = key\<close> is the exit branch of the recursion.
\<close>

function insertionSort_while :: "u16 list \<Rightarrow> u16 \<Rightarrow> int \<Rightarrow> u16 list" where
  "insertionSort_while arr key j =
     (if j \<ge> 0 \<and> arr ! nat j > key
      then insertionSort_while (arr[nat (j + 1) := arr ! nat j]) key (j - 1)
      else arr[nat (j + 1) := key])"
  by pat_completeness auto
termination
  by (relation "measure (\<lambda>(arr, key, j). nat (j + 1))") auto

declare insertionSort_while.simps [simp del]

text \<open>
  The outer \<^verbatim>\<open>for\<close> loop counts in \<^verbatim>\<open>uint8_t\<close>; the counter is kept as an 8-bit
  word, so that the increment is the machine's.
\<close>

function insertionSort_for :: "u16 list \<Rightarrow> u8 \<Rightarrow> u8 \<Rightarrow> u16 list" where
  "insertionSort_for arr n i =
     (if i < n
      then (let key = arr ! unat i;
                j = uint i - 1
            in insertionSort_for (insertionSort_while arr key j) n (i + 1))
      else arr)"
  by pat_completeness auto
termination
proof (relation "measure (\<lambda>(arr, n, i). unat n - unat i)")
  show "wf (measure (\<lambda>(arr, n, i). unat n - unat i))" by simp
next
  fix arr :: "u16 list" and n i :: u8 and x :: u16 and xa :: int
  assume "i < n"
  then have a: "unat i < unat n" by (simp add: word_less_nat_alt)
  have "unat n < 2 ^ LENGTH(8)" by (rule unsigned_less)
  with a have "unat i + 1 < 256" by simp
  then have "unat (i + 1) = unat i + 1"
    by (simp add: unat_word_ariths)
  with a show "((insertionSort_while arr x xa, n, i + 1), (arr, n, i))
      \<in> measure (\<lambda>(arr, n, i). unat n - unat i)"
    by simp
qed

declare insertionSort_for.simps [simp del]

definition insertionSort :: "u16 list \<Rightarrow> u8 \<Rightarrow> u16 list" where
  "insertionSort arr n = insertionSort_for arr n 1"

definition MEDIAN_SAMPLE_COUNT :: u8 where
  "MEDIAN_SAMPLE_COUNT = 31"

text \<open>
  The analog input is the environment: \<open>adc k\<close> is the \<^verbatim>\<open>int\<close> returned by the
  \<open>k\<close>-th call of \<^verbatim>\<open>analogRead(TURBIDITY_PIN)\<close> of a burst, converted to
  \<^verbatim>\<open>uint16_t\<close> when it is stored. \<open>readSamples\<close> is the acquisition loop of
  \<^verbatim>\<open>readTurbidityMedian\<close>, and \<open>readTurbidityMedian_n\<close> is that function with the
  constant \<^verbatim>\<open>MEDIAN_SAMPLE_COUNT\<close> taken as a parameter.
\<close>

definition readSamples :: "u8 \<Rightarrow> (nat \<Rightarrow> int) \<Rightarrow> u16 list" where
  "readSamples n adc = map (\<lambda>i. word_of_int (adc i)) [0 ..< unat n]"

definition readTurbidityMedian_n :: "u8 \<Rightarrow> (nat \<Rightarrow> int) \<Rightarrow> u16" where
  "readTurbidityMedian_n n adc =
     (let samples = readSamples n adc;
          samples' = insertionSort samples n
      in samples' ! (unat n div 2))"

definition readTurbidityMedian :: "(nat \<Rightarrow> int) \<Rightarrow> u16" where
  "readTurbidityMedian adc = readTurbidityMedian_n MEDIAN_SAMPLE_COUNT adc"

section \<open>Calibration flow\<close>

text \<open>
  The power-on values of the file-scope variables, and the part of \<^verbatim>\<open>setup\<close> that
  touches them (the call of \<^verbatim>\<open>loadCalibration\<close>).
\<close>

definition power_on :: "eeprom \<Rightarrow> fw_state" where
  "power_on e =
     \<lparr> cal = \<lparr> magic = 0, clearRaw = 0, cloudyRaw = 0, crc = 0 \<rparr>,
       calLoaded = False, calStage = CAL_NONE, EEPROM = e \<rparr>"

definition setup_cal :: "eeprom \<Rightarrow> fw_state" where
  "setup_cal e = loadCalibration (power_on e)"

text \<open>
  Steps 1 and 2 of \<^verbatim>\<open>loop\<close>. \<open>press\<close> is what \<^verbatim>\<open>buttonLongPressEvent()\<close> returns in
  this iteration and \<open>adc\<close> is the burst read by the capture, if there is one. The later
  steps of \<^verbatim>\<open>loop\<close> write none of \<^verbatim>\<open>cal\<close>, \<^verbatim>\<open>calLoaded\<close>, \<^verbatim>\<open>calStage\<close> and the EEPROM.
\<close>

definition loop_cal :: "bool \<Rightarrow> (nat \<Rightarrow> int) \<Rightarrow> fw_state \<Rightarrow> fw_state" where
  "loop_cal press adc s =
     (let s1 = (if \<not> calLoaded s \<and> calStage s = CAL_NONE
                then s\<lparr>calStage := CAL_WAIT_CLEAR\<rparr> else s)
      in if press then
           (if calStage s1 = CAL_WAIT_CLEAR then
              (let clearRaw' = readTurbidityMedian adc
               in s1\<lparr>cal := (cal s1)\<lparr>clearRaw := clearRaw'\<rparr>, calStage := CAL_WAIT_CLOUDY\<rparr>)
            else if calStage s1 = CAL_WAIT_CLOUDY then
              (let cloudyRaw' = readTurbidityMedian adc
               in (saveCalibration (clearRaw (cal s1)) cloudyRaw' s1)\<lparr>calStage := CAL_DONE\<rparr>)
            else s1\<lparr>calLoaded := False, calStage := CAL_WAIT_CLEAR\<rparr>)
         else s1)"

text \<open>A run of the main loop: one pair of button event and capture burst per iteration.\<close>

fun run_loop :: "(bool \<times> (nat \<Rightarrow> int)) list \<Rightarrow> fw_state \<Rightarrow> fw_state" where
  "run_loop [] s = s"
| "run_loop ((press, adc) # ins) s = run_loop ins (loop_cal press adc s)"

section \<open>LED output\<close>

text \<open>
  The output latches of the digital pins, and the pin modes. \<^verbatim>\<open>updateLed\<close> keeps two
  function-local statics; \<open>now\<close> is the value of \<^verbatim>\<open>millis()\<close>. The macro
  \<^verbatim>\<open>PIN_LED\<close> comes from the board's core headers, which are not part of the
  repository: it is a parameter of the model.
\<close>

datatype PinMode = INPUT | INPUT_PULLUP | OUTPUT

record gpio =
  modes :: "int \<Rightarrow> PinMode"
  levels :: "int \<Rightarrow> bool"

definition BUTTON_PIN :: int where
  "BUTTON_PIN = 7"

definition STATUS_LED_PIN :: int where
  "STATUS_LED_PIN = 8"

definition LOW :: bool where
  "LOW = False"

definition HIGH :: bool where
  "HIGH = True"

definition pinMode :: "int \<Rightarrow> PinMode \<Rightarrow> gpio \<Rightarrow> gpio" where
  "pinMode p m g = g\<lparr>modes := (modes g)(p := m)\<rparr>"

definition digitalWrite :: "int \<Rightarrow> bool \<Rightarrow> gpio \<Rightarrow> gpio" where
  "digitalWrite p v g = g\<lparr>levels := (levels g)(p := v)\<rparr>"

definition setup_gpio :: "gpio \<Rightarrow> gpio" where
  "setup_gpio g =
     digitalWrite STATUS_LED_PIN LOW (pinMode STATUS_LED_PIN OUTPUT (pinMode BUTTON_PIN INPUT_PULLUP g))"

record led_statics =
  lastToggle :: u32
  ledState :: bool

definition led_statics_init :: led_statics where
  "led_statics_init = \<lparr> lastToggle = 0, ledState = False \<rparr>"

definition updateLed :: "int \<Rightarrow> int \<Rightarrow> u32 \<Rightarrow> led_statics \<times> gpio \<Rightarrow> led_statics \<times> gpio" where
  "updateLed PIN_LED idx now sg =
     (let st = fst sg; g = snd sg in
      if idx < THRESH_CLEAR then (st, digitalWrite PIN_LED LOW g)
      else if idx < THRESH_MODERATE then
        (if now - lastToggle st \<ge> 700 then
           (let st1 = st\<lparr>lastToggle := now\<rparr>;
                st2 = st1\<lparr>ledState := \<not> ledState st1\<rparr>
            in (st2, digitalWrite PIN_LED (if ledState st2 then HIGH else LOW) g))
         else (st, g))
      else (st, digitalWrite PIN_LED HIGH g))"

text \<open>The LED step of successive loop iterations, each with its index and its clock value.\<close>

fun run_led :: "int \<Rightarrow> (int \<times> u32) list \<Rightarrow> led_statics \<times> gpio \<Rightarrow> led_statics \<times> gpio" where
  "run_led PIN_LED [] sg = sg"
| "run_led PIN_LED ((idx, now) # rest) sg = run_led PIN_LED rest (updateLed PIN_LED idx now sg)"

section \<open>Single-precision arithmetic\<close>

text \<open>
  \<^verbatim>\<open>float\<close> is taken to be IEEE-754 binary32, and every operation of the source to be
  one correctly rounded operation (round to nearest, ties to even). A value is a rational
  number or one of the two infinities or a NaN; the literals \<^verbatim>\<open>0.0f\<close>, \<^verbatim>\<open>1.0f\<close>,
  \<^verbatim>\<open>100.0f\<close> and \<^verbatim>\<open>0.5f\<close> of the source are binary32 values themselves. \<open>round_f32\<close> rounds a rational to the nearest binary32
  value: \<open>ulp_f32 x\<close> is the spacing of the binary32 grid around \<open>x\<close> (24 significant
  bits, exponents from -126, below which the grid of the subnormal numbers continues),
  \<open>nearest_f32 x\<close> is the nearest grid point, and a result of magnitude \<open>2 ^ 128\<close> or
  more overflows to an infinity.

  The sign of a zero is not kept. It could only be seen by a division by zero, and every
  zero divisor of the firmware is a difference \<open>x - x\<close>, which is \<open>+0\<close> under
  this rounding mode; \<open>f32_div\<close> therefore divides by \<open>+0\<close>.
\<close>

datatype f32 = Finite rat | PInf | NInf | NaN

text \<open>
  \<open>bitlen p\<close> is the number of binary digits of a positive integer, and \<open>ilog2 x\<close> is
  the exponent of the binade of \<open>x \<noteq> 0\<close>: \<open>2 powi ilog2 x \<le> \<bar>x\<bar> < 2 powi (ilog2 x + 1)\<close>.
\<close>

function bitlen :: "int \<Rightarrow> int" where
  "bitlen p = (if p \<le> 0 then 0 else bitlen (p div 2) + 1)"
  by pat_completeness auto
termination
  by (relation "measure nat") auto

declare bitlen.simps [simp del]

definition ilog2 :: "rat \<Rightarrow> int" where
  "ilog2 x =
     (let pq = quotient_of \<bar>x\<bar>;
          d = bitlen (fst pq) - bitlen (snd pq)
      in if 2 powi d \<le> \<bar>x\<bar> then d else d - 1)"

definition rne :: "rat \<Rightarrow> int" where
  "rne x =
     (let f = \<lfloor>x\<rfloor>; r = x - of_int f
      in if r < 1 / 2 then f
         else if 1 / 2 < r then f + 1
         else if even f then f else f + 1)"

definition ulp_f32 :: "rat \<Rightarrow> rat" where
  "ulp_f32 x = 2 powi (max (ilog2 x) (- 126) - 23)"

definition nearest_f32 :: "rat \<Rightarrow> rat" where
  "nearest_f32 x = of_int (rne (x / ulp_f32 x)) * ulp_f32 x"

definition round_f32 :: "rat \<Rightarrow> f32" where
  "round_f32 x =
     (let y = nearest_f32 x
      in if 2 powi 128 \<le> \<bar>y\<bar> then (if 0 < x then PInf else NInf) else Finite y)"

fun f32_neg :: "f32 \<Rightarrow> f32" where
  "f32_neg (Finite x) = Finite (- x)"
| "f32_neg PInf = NInf"
| "f32_neg NInf = PInf"
| "f32_neg NaN = NaN"

fun f32_add :: "f32 \<Rightarrow> f32 \<Rightarrow> f32" where
  "f32_add NaN b = NaN"
| "f32_add a NaN = NaN"
| "f32_add PInf NInf = NaN"
| "f32_add NInf PInf = NaN"
| "f32_add PInf b = PInf"
| "f32_add NInf b = NInf"
| "f32_add a PInf = PInf"
| "f32_add a NInf = NInf"
| "f32_add (Finite x) (Finite y) = round_f32 (x + y)"

definition f32_sub :: "f32 \<Rightarrow> f32 \<Rightarrow> f32" where
  "f32_sub a b = f32_add a (f32_neg b)"

fun f32_sgn_inf :: "bool \<Rightarrow> f32" where
  "f32_sgn_inf True = PInf"
| "f32_sgn_inf False = NInf"

fun f32_mul :: "f32 \<Rightarrow> f32 \<Rightarrow> f32" where
  "f32_mul NaN b = NaN"
| "f32_mul a NaN = NaN"
| "f32_mul (Finite x) (Finite y) = round_f32 (x * y)"
| "f32_mul (Finite x) PInf = (if x = 0 then NaN else f32_sgn_inf (0 < x))"
| "f32_mul (Finite x) NInf = (if x = 0 then NaN else f32_sgn_inf (x < 0))"
| "f32_mul PInf (Finite y) = (if y = 0 then NaN else f32_sgn_inf (0 < y))"
| "f32_mul NInf (Finite y) = (if y = 0 then NaN else f32_sgn_inf (y < 0))"
| "f32_mul PInf PInf = PInf"
| "f32_mul NInf NInf = PInf"
| "f32_mul PInf NInf = NInf"
| "f32_mul NInf PInf = NInf"

fun f32_div :: "f32 \<Rightarrow> f32 \<Rightarrow> f32" where
  "f32_div NaN b = NaN"
| "f32_div a NaN = NaN"
| "f32_div (Finite x) (Finite y) =
     (if y = 0 then (if x = 0 then NaN else f32_sgn_inf (0 < x)) else round_f32 (x / y))"
| "f32_div (Finite x) PInf = Finite 0"
| "f32_div (Finite x) NInf = Finite 0"
| "f32_div PInf (Finite y) = f32_sgn_inf (0 \<le> y)"
| "f32_div NInf (Finite y) = f32_sgn_inf (y < 0)"
| "f32_div a b = NaN"

fun f32_lt :: "f32 \<Rightarrow> f32 \<Rightarrow> bool" where
  "f32_lt NaN b = False"
| "f32_lt a NaN = False"
| "f32_lt (Finite x) (Finite y) = (x < y)"
| "f32_lt a PInf = (a \<noteq> PInf)"
| "f32_lt NInf b = (b \<noteq> NInf)"
| "f32_lt a b = False"

definition f32_gt :: "f32 \<Rightarrow> f32 \<Rightarrow> bool" where
  "f32_gt a b = f32_lt b a"

text \<open>\<^verbatim>\<open>(float)raw\<close> for a \<^verbatim>\<open>uint16_t\<close>.\<close>

definition f32_of_u16 :: "u16 \<Rightarrow> f32" where
  "f32_of_u16 w = round_f32 (of_nat (unat w))"

text \<open>
  \<^verbatim>\<open>(int)x\<close> truncates towards zero. The conversion is undefined for a NaN, an
  infinity and a value outside the range of the 32-bit \<^verbatim>\<open>int\<close>: \<open>None\<close>.
\<close>

fun f32_to_int :: "f32 \<Rightarrow> int option" where
  "f32_to_int (Finite x) =
     (let n = (if 0 \<le> x then \<lfloor>x\<rfloor> else \<lceil>x\<rceil>)
      in if - 2147483648 \<le> n \<and> n \<le> 2147483647 then Some n else None)"
| "f32_to_int a = None"

section \<open>Index mapper\<close>

text \<open>
  \<^verbatim>\<open>map\<close> is the function of the Arduino core,
  \<^verbatim>\<open>(x - in_min) * (out_max - out_min) / (in_max - in_min) + out_min\<close> on \<^verbatim>\<open>long\<close>,
  with the division of C, which truncates towards zero. For a 16-bit \<open>x\<close> and the
  constants of the call in \<^verbatim>\<open>computeTurbidityIndex\<close> no intermediate value leaves
  the range of a 32-bit \<^verbatim>\<open>long\<close>.
\<close>

definition c_div :: "int \<Rightarrow> int \<Rightarrow> int" where
  "c_div a b = (if (a < 0) = (b < 0) then \<bar>a\<bar> div \<bar>b\<bar> else - (\<bar>a\<bar> div \<bar>b\<bar>))"

definition map_long :: "int \<Rightarrow> int \<Rightarrow> int \<Rightarrow> int \<Rightarrow> int \<Rightarrow> int" where
  "map_long x in_min in_max out_min out_max =
     c_div ((x - in_min) * (out_max - out_min)) (in_max - in_min) + out_min"

text \<open>
  \<^verbatim>\<open>computeTurbidityIndex\<close> reads \<^verbatim>\<open>calLoaded\<close> and \<^verbatim>\<open>cal\<close>. The result is \<open>None\<close>
  where the conversion of \<open>t * 100 + 0.5\<close> to \<^verbatim>\<open>int\<close> is undefined.
\<close>

definition computeTurbidityIndex :: "fw_state \<Rightarrow> u16 \<Rightarrow> int option" where
  "computeTurbidityIndex s raw =
     (if \<not> calLoaded s then
        (let idx = map_long (uint raw) 0 4095 100 0;
             idx1 = (if idx < 0 then 0 else idx);
             idx2 = (if idx1 > 100 then 100 else idx1)
         in Some idx2)
      else
        (let clearV = f32_of_u16 (clearRaw (cal s));
             cloudyV = f32_of_u16 (cloudyRaw (cal s));
             t = (if f32_gt cloudyV clearV
                  then f32_div (f32_sub (f32_of_u16 raw) clearV) (f32_sub cloudyV clearV)
                  else f32_div (f32_sub clearV (f32_of_u16 raw)) (f32_sub clearV cloudyV));
             t1 = (if f32_lt t (Finite 0) then Finite 0 else t);
             t2 = (if f32_gt t1 (Finite 1) then Finite 1 else t1)
         in case f32_to_int (f32_add (f32_mul t2 (Finite 100)) (Finite (1 / 2))) of
              None \<Rightarrow> None
            | Some idx \<Rightarrow>
                (let idx1 = (if idx < 0 then 0 else idx);
                     idx2 = (if idx1 > 100 then 100 else idx1)
                 in Some idx2)))"

section \<open>Smoother\<close>

text \<open>
  Step 5 of \<^verbatim>\<open>loop\<close>. \<^verbatim>\<open>EMA_ALPHA\<close> is the literal \<^verbatim>\<open>0.20f\<close>, the binary32 value
  nearest to one fifth, and \<^verbatim>\<open>emaRaw\<close> starts at \<open>-1\<close>. \<open>ema_blend\<close> is the assignment
  \<^verbatim>\<open>emaRaw = EMA_ALPHA * (float)rawMedian + (1.0f - EMA_ALPHA) * emaRaw\<close>, and
  \<open>ema_step\<close> is that assignment after the \<^verbatim>\<open>if (emaRaw < 0.0f)\<close> before it, which has
  no \<^verbatim>\<open>else\<close>. \<open>emaRounded\<close> is \<^verbatim>\<open>(uint16_t)(emaRaw + 0.5f)\<close>; the conversion is
  undefined outside the range of \<^verbatim>\<open>uint16_t\<close>. \<open>ema_run\<close> is the state after the loop
  iterations that read the given medians.
\<close>

definition EMA_ALPHA :: f32 where
  "EMA_ALPHA = round_f32 (1 / 5)"

definition emaRaw_init :: f32 where
  "emaRaw_init = Finite (- 1)"

definition ema_blend :: "f32 \<Rightarrow> u16 \<Rightarrow> f32" where
  "ema_blend emaRaw rawMedian =
     f32_add (f32_mul EMA_ALPHA (f32_of_u16 rawMedian))
             (f32_mul (f32_sub (Finite 1) EMA_ALPHA) emaRaw)"

definition ema_step :: "f32 \<Rightarrow> u16 \<Rightarrow> f32" where
  "ema_step emaRaw rawMedian =
     (let emaRaw1 = (if f32_lt emaRaw (Finite 0) then f32_of_u16 rawMedian else emaRaw)
      in ema_blend emaRaw1 rawMedian)"

fun f32_to_u16 :: "f32 \<Rightarrow> u16 option" where
  "f32_to_u16 (Finite x) =
     (let n = (if 0 \<le> x then \<lfloor>x\<rfloor> else \<lceil>x\<rceil>)
      in if 0 \<le> n \<and> n \<le> 65535 then Some (word_of_int n) else None)"
| "f32_to_u16 a = None"

definition emaRounded :: "f32 \<Rightarrow> u16 option" where
  "emaRounded emaRaw = f32_to_u16 (f32_add emaRaw (Finite (1 / 2)))"

fun ema_run :: "f32 \<Rightarrow> u16 list \<Rightarrow> f32" where
  "ema_run emaRaw [] = emaRaw"
| "ema_run emaRaw (rawMedian # rest) = ema_run (ema_step emaRaw rawMedian) rest"

section \<open>Auxiliary names for the index mapper\<close>

text \<open>
  The pieces of the calibrated branch of \<^verbatim>\<open>computeTurbidityIndex\<close>, named so that the
  proofs can speak about them: \<open>mapper_t\<close> is the value of \<^verbatim>\<open>t\<close> before it is clamped,
  and \<open>mapper_index\<close> is everything from the clamping of \<^verbatim>\<open>t\<close> on.
\<close>

definition mapper_t :: "u16 \<Rightarrow> u16 \<Rightarrow> u16 \<Rightarrow> f32" where
  "mapper_t clear cloudy raw =
     (if f32_gt (f32_of_u16 cloudy) (f32_of_u16 clear)
      then f32_div (f32_sub (f32_of_u16 raw) (f32_of_u16 clear))
                   (f32_sub (f32_of_u16 cloudy) (f32_of_u16 clear))
      else f32_div (f32_sub (f32_of_u16 clear) (f32_of_u16 raw))
                   (f32_sub (f32_of_u16 clear) (f32_of_u16 cloudy)))"

definition mapper_index :: "f32 \<Rightarrow> int option" where
  "mapper_index t =
     (let t1 = (if f32_lt t (Finite 0) then Finite 0 else t);
          t2 = (if f32_gt t1 (Finite 1) then Finite 1 else t1)
      in case f32_to_int (f32_add (f32_mul t2 (Finite 100)) (Finite (1 / 2))) of
           None \<Rightarrow> None
         | Some idx \<Rightarrow>
             (let idx1 = (if idx < 0 then 0 else idx);
                  idx2 = (if idx1 > 100 then 100 else idx1)
              in Some idx2))"

section \<open>Notions used to state the results\<close>

text \<open>
  The fraction of the way from the clear reference to the cloudy one, in exact arithmetic,
  first in the shape of the two branches of the code and then in the words of the
  specification: \<open>(raw - low) / (high - low)\<close>, turned round when the clear reference is
  the higher one.
\<close>

definition cal_quotient :: "u16 \<Rightarrow> u16 \<Rightarrow> u16 \<Rightarrow> rat" where
  "cal_quotient clear cloudy raw =
     (if clear < cloudy
      then of_int (uint raw - uint clear) / of_int (uint cloudy - uint clear)
      else of_int (uint clear - uint raw) / of_int (uint clear - uint cloudy))"

definition oriented_fraction :: "u16 \<Rightarrow> u16 \<Rightarrow> u16 \<Rightarrow> rat" where
  "oriented_fraction clear cloudy raw =
     (let low = min (uint clear) (uint cloudy);
          high = max (uint clear) (uint cloudy);
          u = of_int (uint raw - low) / of_int (high - low)
      in if clear < cloudy then u else 1 - u)"

text \<open>Rounding to the nearest integer, halves upwards, in exact arithmetic.\<close>

definition round_half_up :: "rat \<Rightarrow> int" where
  "round_half_up x = \<lfloor>x + 1 / 2\<rfloor>"

text \<open>
  Clamping to \<open>[0, 1]\<close>, and the scaling to \<open>[0, 100]\<close>: multiply by 100, add one half,
  drop the fraction, each operation rounded to binary32.
\<close>

definition clamp01 :: "rat \<Rightarrow> rat" where
  "clamp01 y = (let y1 = (if y < 0 then 0 else y) in if 1 < y1 then 1 else y1)"

definition scale_index :: "rat \<Rightarrow> int" where
  "scale_index y = \<lfloor>nearest_f32 (nearest_f32 (clamp01 y * 100) + 1 / 2)\<rfloor>"

text \<open>
  The record that \<^verbatim>\<open>saveCalibration\<close> builds from its two arguments, an erased EEPROM,
  a state with a loaded calibration, and the pins after reset.
\<close>

definition sealed_record :: "u16 \<Rightarrow> u16 \<Rightarrow> CalData" where
  "sealed_record a b =
     \<lparr> magic = CAL_MAGIC, clearRaw = a, cloudyRaw = b,
       crc = checksum16 \<lparr> magic = CAL_MAGIC, clearRaw = a, cloudyRaw = b, crc = 0 \<rparr> \<rparr>"

definition fresh_eeprom :: eeprom where
  "fresh_eeprom = (\<lambda>_. 0xFF)"

definition loaded_state :: "u16 \<Rightarrow> u16 \<Rightarrow> fw_state" where
  "loaded_state c d =
     \<lparr> cal = sealed_record c d, calLoaded = True, calStage = CAL_DONE,
       EEPROM = EEPROM_put fresh_eeprom EEPROM_ADDR (sealed_record c d) \<rparr>"

definition gpio_reset :: gpio where
  "gpio_reset = \<lparr> modes = (\<lambda>_. INPUT), levels = (\<lambda>_. False) \<rparr>"

text \<open>
  Insertion into a sorted list that is held in reverse, scanning from its largest element,
  as the inner loop of \<^verbatim>\<open>insertionSort\<close> does; and a burst with repeated values.
\<close>

fun ins_rev :: "u16 \<Rightarrow> u16 list \<Rightarrow> u16 list" where
  "ins_rev key [] = [key]"
| "ins_rev key (x # xs) = (if x > key then x # ins_rev key xs else key # x # xs)"

definition burst1 :: "nat \<Rightarrow> int" where
  "burst1 k = (if k mod 3 = 0 then 512 else if k mod 3 = 1 then 4095 else int (500 + k))"

section \<open>The calibration store\<close>

text \<open>Writing a record to the EEPROM and reading it back gives the record.\<close>

lemma unat_byte_of_u16: "unat (byte_of_u16 k w) = unat w div 256 ^ k mod 256"
  by (simp add: byte_of_u16_def unat_of_nat)

lemma unat_byte_of_u32: "unat (byte_of_u32 k w) = unat w div 256 ^ k mod 256"
  by (simp add: byte_of_u32_def unat_of_nat)

lemma le16_bytes: "le16 (byte_of_u16 0 w) (byte_of_u16 (Suc 0) w) = w"
proof -
  have "unat w < 2 ^ LENGTH(16)" by (rule unsigned_less)
  then have "unat w div 256 < 256" by simp
  then have "unat w mod 256 + 256 * (unat w div 256 mod 256) = unat w"
    by simp
  then have "le16 (byte_of_u16 0 w) (byte_of_u16 (Suc 0) w) = word_of_nat (unat w)"
    unfolding le16_def unat_byte_of_u16 by simp
  then show ?thesis by simp
qed

lemma split4:
  fixes n :: nat assumes "n < 4294967296"
  shows "n mod 256 + 256 * (n div 256 mod 256)
      + 65536 * (n div 65536 mod 256) + 16777216 * (n div 16777216) = n"
proof -
  have a: "n div 16777216 mod 256 = n div 16777216" using assms by simp
  have b: "n div 65536 = n div 16777216 * 256 + n div 65536 mod 256"
    using div_mult2_eq[of n 65536 256] by simp
  have c: "n div 256 = n div 65536 * 256 + n div 256 mod 256"
    using div_mult2_eq[of n 256 256] by simp
  have d: "n = n div 256 * 256 + n mod 256" by simp
  show ?thesis using a b c d by linarith
qed

lemma le32_bytes:
  "le32 (byte_of_u32 0 w) (byte_of_u32 (Suc 0) w) (byte_of_u32 2 w) (byte_of_u32 3 w) = w"
proof -
  have "unat w < 2 ^ LENGTH(32)" by (rule unsigned_less)
  then have "unat w < 4294967296" by simp
  then have "unat w div 16777216 mod 256 = unat w div 16777216" by simp
  with split4[OF \<open>unat w < 4294967296\<close>]
  have h: "unat (byte_of_u32 0 w) + 256 * unat (byte_of_u32 (Suc 0) w)
      + 65536 * unat (byte_of_u32 2 w) + 16777216 * unat (byte_of_u32 3 w) = unat w"
    by (simp add: unat_byte_of_u32)
  show ?thesis unfolding le32_def h by simp
qed

lemma EEPROM_get_put: "EEPROM_get (EEPROM_put e a d) a = d"
  by (simp add: EEPROM_get_def EEPROM_put_def le16_bytes le32_bytes)

lemma EEPROM_get_surj: "\<exists>e. EEPROM_get e a = d"
  using EEPROM_get_put by blast

lemma loadCalibration_calLoaded:
  "calLoaded (loadCalibration s) \<longleftrightarrow>
     (let d = EEPROM_get (EEPROM s) EEPROM_ADDR in
      magic d = CAL_MAGIC \<and> crc d = checksum16 d \<and> clearRaw d \<noteq> cloudyRaw d)"
  by (simp add: loadCalibration_def Let_def)

lemma loadCalibration_frame:
  "cal (loadCalibration s) = EEPROM_get (EEPROM s) EEPROM_ADDR \<and>
   EEPROM (loadCalibration s) = EEPROM s \<and> calStage (loadCalibration s) = calStage s"
  by (simp add: loadCalibration_def Let_def)

lemma checksum16_update_crc [simp]: "checksum16 (d\<lparr>crc := c\<rparr>) = checksum16 d"
  by (simp add: checksum16_def)

lemma save_facts:
  "magic (cal (saveCalibration a b s)) = CAL_MAGIC \<and>
   crc (cal (saveCalibration a b s)) = checksum16 (cal (saveCalibration a b s)) \<and>
   clearRaw (cal (saveCalibration a b s)) = a \<and>
   cloudyRaw (cal (saveCalibration a b s)) = b \<and>
   calLoaded (saveCalibration a b s) \<and>
   EEPROM_get (EEPROM (saveCalibration a b s)) EEPROM_ADDR = cal (saveCalibration a b s)"
  by (simp add: saveCalibration_def Let_def EEPROM_get_put)

lemma checksum16_eqI:
  "magic x = magic y \<Longrightarrow> clearRaw x = clearRaw y \<Longrightarrow> cloudyRaw x = cloudyRaw y \<Longrightarrow>
   checksum16 x = checksum16 y"
  by (simp add: checksum16_def)

lemma sealed_record_fields [simp]:
  "magic (sealed_record a b) = CAL_MAGIC" "clearRaw (sealed_record a b) = a"
  "cloudyRaw (sealed_record a b) = b"
  by (simp_all add: sealed_record_def)

lemma sealed_record_crc: "crc (sealed_record a b) = checksum16 (sealed_record a b)"
proof -
  have "crc (sealed_record a b)
      = checksum16 \<lparr> magic = CAL_MAGIC, clearRaw = a, cloudyRaw = b, crc = 0 \<rparr>"
    by (simp add: sealed_record_def)
  also have "\<dots> = checksum16 (sealed_record a b)"
    by (rule checksum16_eqI) simp_all
  finally show ?thesis .
qed

lemma saveCalibration_cal: "cal (saveCalibration a b s) = sealed_record a b"
proof -
  let ?c3 = "(cal s)\<lparr>magic := CAL_MAGIC, clearRaw := a, cloudyRaw := b\<rparr>"
  have "checksum16 ?c3 = checksum16 \<lparr> magic = CAL_MAGIC, clearRaw = a, cloudyRaw = b, crc = 0 \<rparr>"
    by (rule checksum16_eqI) simp_all
  then show ?thesis
    by (simp add: saveCalibration_def sealed_record_def Let_def)
qed

section \<open>The sampler sorts\<close>

text \<open>
  One run of the inner loop inserts the key into the sorted prefix; the outer loop keeps
  the prefix sorted and the array a permutation of the input.
\<close>

lemma mset_ins_rev: "mset (ins_rev key xs) = add_mset key (mset xs)"
  by (induction xs) auto

lemma set_ins_rev: "set (ins_rev key xs) = insert key (set xs)"
  by (induction xs) auto

lemma length_ins_rev: "length (ins_rev key xs) = Suc (length xs)"
  by (induction xs) auto

lemma sorted_ins_rev: "sorted (rev xs) \<Longrightarrow> sorted (rev (ins_rev key xs))"
  by (induction xs) (auto simp: sorted_append set_ins_rev)

lemma while_eq:
  "k < length arr \<Longrightarrow>
   insertionSort_while arr key (int k - 1) = rev (ins_rev key (rev (take k arr))) @ drop (Suc k) arr"
proof (induction k arbitrary: arr)
  case 0
  then show ?case
    by (cases arr) (simp_all add: insertionSort_while.simps[of _ key "-1"])
next
  case (Suc m)
  then have m: "m < length arr" and sm: "Suc m < length arr" by simp_all
  have tk: "rev (take (Suc m) arr) = arr ! m # rev (take m arr)"
    using m by (simp add: take_Suc_conv_app_nth)
  show ?case
  proof (cases "arr ! m > key")
    case True
    let ?arr' = "arr[Suc m := arr ! m]"
    have "insertionSort_while arr key (int (Suc m) - 1) = insertionSort_while ?arr' key (int m - 1)"
      using True by (subst insertionSort_while.simps) (simp add: nat_add_distrib)
    also have "\<dots> = rev (ins_rev key (rev (take m ?arr'))) @ drop (Suc m) ?arr'"
      using Suc.IH[of ?arr'] m by simp
    also have "take m ?arr' = take m arr" by simp
    also have "drop (Suc m) ?arr' = arr ! m # drop (Suc (Suc m)) arr"
      using sm by (simp add: upd_conv_take_nth_drop min_def)
    finally show ?thesis using True by (simp add: tk)
  next
    case False
    have "insertionSort_while arr key (int (Suc m) - 1) = arr[Suc m := key]"
      using False by (subst insertionSort_while.simps) (simp add: nat_add_distrib)
    also have "\<dots> = take (Suc m) arr @ key # drop (Suc (Suc m)) arr"
      using sm by (simp add: upd_conv_take_nth_drop)
    finally show ?thesis using False m by (simp add: tk take_Suc_conv_app_nth)
  qed
qed

lemma for_correct:
  "unat n = length arr \<Longrightarrow> 1 \<le> unat i \<Longrightarrow> unat i \<le> unat n \<Longrightarrow>
   sorted (take (unat i) arr) \<Longrightarrow>
   sorted (insertionSort_for arr n i) \<and> mset (insertionSort_for arr n i) = mset arr"
proof (induction arr n i rule: insertionSort_for.induct)
  case (1 arr n i)
  show ?case
  proof (cases "i < n")
    case False
    with "1.prems" have "unat i = unat n" by (simp add: word_less_nat_alt)
    with "1.prems" False show ?thesis
      by (subst (1 2) insertionSort_for.simps) simp
  next
    case True
    let ?k = "unat i"
    let ?key = "arr ! ?k"
    let ?arr1 = "insertionSort_while arr ?key (uint i - 1)"
    from True have kn: "?k < unat n" by (simp add: word_less_nat_alt)
    with "1.prems" have kl: "?k < length arr" by simp
    have "unat n < 2 ^ LENGTH(8)" by (rule unsigned_less)
    with kn have "?k + 1 < 256" by simp
    then have suc: "unat (i + 1) = Suc ?k" by (simp add: unat_word_ariths)
    have ui: "uint i - 1 = int ?k - 1" by simp
    have arr1: "?arr1 = rev (ins_rev ?key (rev (take ?k arr))) @ drop (Suc ?k) arr"
      unfolding ui by (rule while_eq[OF kl])
    have len1: "length ?arr1 = length arr"
      using kl by (simp add: arr1 length_ins_rev)
    have tk: "take (Suc ?k) ?arr1 = rev (ins_rev ?key (rev (take ?k arr)))"
      using kl by (simp add: arr1 length_ins_rev)
    have srt: "sorted (take (unat (i + 1)) ?arr1)"
      unfolding suc tk using "1.prems"(4) by (intro sorted_ins_rev) simp
    have ms: "mset ?arr1 = mset arr"
    proof -
      have "mset ?arr1 = mset (take ?k arr) + {#?key#} + mset (drop (Suc ?k) arr)"
        by (simp add: arr1 mset_ins_rev)
      also have "\<dots> = mset (take ?k arr @ ?key # drop (Suc ?k) arr)" by simp
      also have "take ?k arr @ ?key # drop (Suc ?k) arr = arr"
        using kl by (simp add: id_take_nth_drop[symmetric])
      finally show ?thesis .
    qed
    have IH: "sorted (insertionSort_for ?arr1 n (i + 1)) \<and>
              mset (insertionSort_for ?arr1 n (i + 1)) = mset ?arr1"
      using "1.IH"[OF True refl refl] "1.prems"(1) len1 suc kn srt by simp
    have unf: "insertionSort_for arr n i = insertionSort_for ?arr1 n (i + 1)"
      using True by (subst insertionSort_for.simps) (simp add: Let_def)
    show ?thesis unfolding unf using IH ms by simp
  qed
qed

lemma insertionSort_sort:
  assumes "unat n = length arr"
  shows "insertionSort arr n = sort arr"
proof (cases "unat n = 0")
  case True
  with assms have "arr = []" by simp
  moreover from True have "\<not> 1 < n" by (simp add: word_less_nat_alt)
  ultimately show ?thesis
    unfolding insertionSort_def by (subst insertionSort_for.simps) simp
next
  case False
  have "sorted (take (unat (1::u8)) arr)"
    by (cases arr) simp_all
  with for_correct[of n arr 1] assms False
  have "sorted (insertionSort arr n) \<and> mset (insertionSort arr n) = mset arr"
    by (simp add: insertionSort_def)
  then show ?thesis
    using properties_for_sort[of "insertionSort arr n" arr] by simp
qed

lemma length_readSamples: "length (readSamples n adc) = unat n"
  by (simp add: readSamples_def)

lemma sorted_count_less:
  fixes xs :: "u16 list"
  assumes "sorted xs" "k < length xs"
  shows "length (filter (\<lambda>x. x < xs ! k) xs) \<le> k"
proof -
  have "\<forall>x \<in> set (drop k xs). \<not> x < xs ! k"
  proof
    fix x assume "x \<in> set (drop k xs)"
    then obtain j where "j < length xs - k" "x = xs ! (k + j)"
      by (auto simp: in_set_conv_nth)
    with assms have "xs ! k \<le> x" by (simp add: sorted_nth_mono)
    then show "\<not> x < xs ! k" by simp
  qed
  then have "filter (\<lambda>x. x < xs ! k) (drop k xs) = []" by simp
  moreover have "filter (\<lambda>x. x < xs ! k) xs
      = filter (\<lambda>x. x < xs ! k) (take k xs) @ filter (\<lambda>x. x < xs ! k) (drop k xs)"
    by (metis append_take_drop_id filter_append)
  ultimately have "length (filter (\<lambda>x. x < xs ! k) xs) \<le> length (take k xs)"
    by (simp only: append_Nil2 length_filter_le)
  then show ?thesis by simp
qed

lemma sorted_count_greater:
  fixes xs :: "u16 list"
  assumes "sorted xs" "k < length xs"
  shows "length (filter (\<lambda>x. xs ! k < x) xs) \<le> length xs - Suc k"
proof -
  have "\<forall>x \<in> set (take (Suc k) xs). \<not> xs ! k < x"
  proof
    fix x assume "x \<in> set (take (Suc k) xs)"
    then obtain j where "j < Suc k" "x = xs ! j"
      using assms by (auto simp: in_set_conv_nth)
    with assms have "x \<le> xs ! k" by (simp add: sorted_nth_mono)
    then show "\<not> xs ! k < x" by simp
  qed
  then have "filter (\<lambda>x. xs ! k < x) (take (Suc k) xs) = []" by simp
  moreover have "filter (\<lambda>x. xs ! k < x) xs
      = filter (\<lambda>x. xs ! k < x) (take (Suc k) xs) @ filter (\<lambda>x. xs ! k < x) (drop (Suc k) xs)"
    by (metis append_take_drop_id filter_append)
  ultimately have "length (filter (\<lambda>x. xs ! k < x) xs) \<le> length (drop (Suc k) xs)"
    by (simp only: append_Nil length_filter_le)
  then show ?thesis by simp
qed

lemma readTurbidityMedian_n_sort:
  "readTurbidityMedian_n n adc = sort (readSamples n adc) ! (unat n div 2)"
  by (simp add: readTurbidityMedian_n_def Let_def insertionSort_sort length_readSamples)

lemma readTurbidityMedian_const: "readTurbidityMedian (\<lambda>_. v) = word_of_int v"
proof -
  let ?xs = "readSamples MEDIAN_SAMPLE_COUNT (\<lambda>_. v)"
  have len: "length (sort ?xs) = 31" by (simp add: length_readSamples MEDIAN_SAMPLE_COUNT_def)
  have "readTurbidityMedian (\<lambda>_. v) = sort ?xs ! (unat MEDIAN_SAMPLE_COUNT div 2)"
    by (simp add: readTurbidityMedian_def readTurbidityMedian_n_sort)
  also have "\<dots> \<in> set (sort ?xs)"
    using len by (intro nth_mem) (simp add: MEDIAN_SAMPLE_COUNT_def)
  finally have "readTurbidityMedian (\<lambda>_. v) \<in> set ?xs" by simp
  then show ?thesis by (auto simp: readSamples_def)
qed

section \<open>Steps of the calibration flow\<close>

lemma run_loop_append: "run_loop (xs @ ys) s = run_loop ys (run_loop xs s)"
  by (induction xs arbitrary: s) auto

lemma loop_cal_idle:
  "loop_cal False adc s =
     (if \<not> calLoaded s \<and> calStage s = CAL_NONE then s\<lparr>calStage := CAL_WAIT_CLEAR\<rparr> else s)"
  by (simp add: loop_cal_def Let_def)

lemma run_loop_idle:
  assumes "\<forall>x \<in> set ins. \<not> fst x" "calStage s \<noteq> CAL_NONE"
  shows "run_loop ins s = s"
  using assms by (induction ins arbitrary: s) (auto simp: loop_cal_idle)

lemma run_loop_idle_first:
  assumes "\<forall>x \<in> set ins. \<not> fst x" "\<not> calLoaded s" "calStage s = CAL_NONE" "ins \<noteq> []"
  shows "run_loop ins s = s\<lparr>calStage := CAL_WAIT_CLEAR\<rparr>"
proof (cases ins)
  case Nil
  with assms(4) show ?thesis by simp
next
  case (Cons x rest)
  obtain p adc where x: "x = (p, adc)" by (cases x)
  with assms(1) Cons have p: "\<not> p" and rest: "\<forall>x \<in> set rest. \<not> fst x" by auto
  have "run_loop ins s = run_loop rest (s\<lparr>calStage := CAL_WAIT_CLEAR\<rparr>)"
    using p assms(2,3) by (simp add: Cons x loop_cal_idle)
  also have "\<dots> = s\<lparr>calStage := CAL_WAIT_CLEAR\<rparr>"
    by (rule run_loop_idle[OF rest]) simp
  finally show ?thesis .
qed

lemma loop_cal_capture_clear:
  assumes "\<not> calLoaded s" "calStage s = CAL_NONE \<or> calStage s = CAL_WAIT_CLEAR"
  shows "loop_cal True adc s =
         s\<lparr>cal := (cal s)\<lparr>clearRaw := readTurbidityMedian adc\<rparr>, calStage := CAL_WAIT_CLOUDY\<rparr>"
  using assms by (auto simp: loop_cal_def Let_def)

lemma loop_cal_capture_cloudy:
  assumes "calStage s = CAL_WAIT_CLOUDY"
  shows "loop_cal True adc s =
         (saveCalibration (clearRaw (cal s)) (readTurbidityMedian adc) s)\<lparr>calStage := CAL_DONE\<rparr>"
  using assms by (simp add: loop_cal_def Let_def)

lemma setup_cal_stage: "calStage (setup_cal e) = CAL_NONE"
  by (simp add: setup_cal_def loadCalibration_frame power_on_def)

lemma fresh_not_loaded: "\<not> calLoaded (setup_cal fresh_eeprom)"
  by (simp add: setup_cal_def loadCalibration_def power_on_def Let_def EEPROM_get_def
      fresh_eeprom_def le32_def CAL_MAGIC_def)

lemma run_two_presses_same:
  "run_loop [(True, \<lambda>_. 500), (True, \<lambda>_. 500)] (setup_cal fresh_eeprom)
   = (saveCalibration 500 500
        ((setup_cal fresh_eeprom)\<lparr>cal := (cal (setup_cal fresh_eeprom))\<lparr>clearRaw := 500\<rparr>,
                                   calStage := CAL_WAIT_CLOUDY\<rparr>))\<lparr>calStage := CAL_DONE\<rparr>"
proof -
  let ?s0 = "setup_cal fresh_eeprom"
  have a: "loop_cal True (\<lambda>_. 500) ?s0
      = ?s0\<lparr>cal := (cal ?s0)\<lparr>clearRaw := 500\<rparr>, calStage := CAL_WAIT_CLOUDY\<rparr>"
    using loop_cal_capture_clear[OF fresh_not_loaded, of "\<lambda>_. 500"] setup_cal_stage[of fresh_eeprom]
    by (simp add: readTurbidityMedian_const)
  have b: "loop_cal True (\<lambda>_. 500) (?s0\<lparr>cal := (cal ?s0)\<lparr>clearRaw := 500\<rparr>, calStage := CAL_WAIT_CLOUDY\<rparr>)
      = (saveCalibration 500 500 (?s0\<lparr>cal := (cal ?s0)\<lparr>clearRaw := 500\<rparr>,
            calStage := CAL_WAIT_CLOUDY\<rparr>))\<lparr>calStage := CAL_DONE\<rparr>"
    by (simp add: loop_cal_capture_cloudy readTurbidityMedian_const)
  show ?thesis by (simp only: run_loop.simps a b)
qed

section \<open>Pins written by the LED routine\<close>

lemma updateLed_frame:
  "modes (snd (updateLed PIN_LED idx now sg)) = modes (snd sg) \<and>
   (\<forall>q. q \<noteq> PIN_LED \<longrightarrow> levels (snd (updateLed PIN_LED idx now sg)) q = levels (snd sg) q)"
  by (simp add: updateLed_def Let_def digitalWrite_def)

lemma run_led_frame:
  "modes (snd (run_led PIN_LED runs sg)) = modes (snd sg) \<and>
   (\<forall>q. q \<noteq> PIN_LED \<longrightarrow> levels (snd (run_led PIN_LED runs sg)) q = levels (snd sg) q)"
proof (induction runs arbitrary: sg)
  case Nil
  show ?case by simp
next
  case (Cons r runs)
  obtain idx now where r: "r = (idx, now)" by (cases r)
  show ?case
    using Cons.IH[of "updateLed PIN_LED idx now sg"] updateLed_frame[of PIN_LED idx now sg]
    by (simp add: r)
qed

lemma setup_gpio_status:
  "modes (setup_gpio g) STATUS_LED_PIN = OUTPUT \<and> levels (setup_gpio g) STATUS_LED_PIN = LOW"
  by (simp add: setup_gpio_def digitalWrite_def pinMode_def)

section \<open>Rounding to binary32\<close>

text \<open>The binade of a rational.\<close>

lemma bitlen_bounds:
  "0 < p \<Longrightarrow> 1 \<le> bitlen p \<and> 2 ^ nat (bitlen p - 1) \<le> p \<and> p < 2 ^ nat (bitlen p)"
proof (induction p rule: bitlen.induct)
  case (1 p)
  show ?case
  proof (cases "p = 1")
    case True
    have "bitlen 1 = 1" by (simp add: bitlen.simps[of 1] bitlen.simps[of 0])
    with True show ?thesis by simp
  next
    case False
    with "1.prems" have h: "0 < p div 2" by simp
    let ?b = "bitlen (p div 2)"
    from "1.IH" "1.prems" h
    have IH: "1 \<le> ?b" "2 ^ nat (?b - 1) \<le> p div 2" "p div 2 < 2 ^ nat ?b"
      by simp_all
    have b: "bitlen p = ?b + 1" using "1.prems" by (subst bitlen.simps) simp
    have e: "(2::int) ^ nat ?b = 2 * 2 ^ nat (?b - 1)"
      using IH(1) by (simp add: power_Suc[symmetric] Suc_nat_eq_nat_zadd1 del: power_Suc)
    have "2 ^ nat (bitlen p - 1) \<le> p"
      using IH(2) e by (simp add: b)
    moreover have "p < 2 ^ nat (bitlen p)"
    proof -
      have "nat (?b + 1) = Suc (nat ?b)" using IH(1) by simp
      then show ?thesis using IH(3) by (simp add: b)
    qed
    ultimately show ?thesis using IH(1) by (simp add: b)
  qed
qed

lemma bitlen_powi:
  assumes "0 < p"
  shows "2 powi (bitlen p - 1) \<le> (of_int p :: rat)" "(of_int p :: rat) < 2 powi (bitlen p)"
proof -
  from bitlen_bounds[OF assms]
  have b: "1 \<le> bitlen p" "2 ^ nat (bitlen p - 1) \<le> p" "p < 2 ^ nat (bitlen p)" by simp_all
  have "(of_int (2 ^ nat (bitlen p - 1)) :: rat) \<le> of_int p"
    using b(2) by (simp only: of_int_le_iff)
  then show "2 powi (bitlen p - 1) \<le> (of_int p :: rat)"
    using b(1) by (simp add: power_int_def)
  have "(of_int p :: rat) < of_int (2 ^ nat (bitlen p))"
    using b(3) by (simp only: of_int_less_iff)
  then show "(of_int p :: rat) < 2 powi (bitlen p)"
    using b(1) by (simp add: power_int_def)
qed

lemma ilog2_bounds:
  assumes "x \<noteq> 0"
  shows "2 powi (ilog2 x) \<le> \<bar>x\<bar>" "\<bar>x\<bar> < 2 powi (ilog2 x + 1)"
proof -
  obtain p q where pq: "quotient_of \<bar>x\<bar> = (p, q)" by (cases "quotient_of \<bar>x\<bar>")
  then have q: "0 < q" by (rule quotient_of_denom_pos)
  from pq have x: "\<bar>x\<bar> = of_int p / of_int q" by (rule quotient_of_div)
  from assms have "0 < \<bar>x\<bar>" by simp
  with x q have p: "0 < p" by (simp add: zero_less_divide_iff)
  let ?d = "bitlen p - bitlen q"
  have qr: "(0::rat) < of_int q" using q by simp
  have up: "\<bar>x\<bar> < 2 powi (?d + 1)"
  proof -
    have "of_int p < (2::rat) powi (bitlen p)" by (rule bitlen_powi[OF p])
    also have "\<dots> = 2 powi (?d + 1) * 2 powi (bitlen q - 1)"
      by (simp flip: power_int_add)
    also have "\<dots> \<le> 2 powi (?d + 1) * of_int q"
      using bitlen_powi(1)[OF q] by (intro mult_left_mono) simp_all
    finally show ?thesis using qr by (simp add: x pos_divide_less_eq)
  qed
  have lo: "2 powi (?d - 1) \<le> \<bar>x\<bar>"
  proof -
    have "2 powi (?d - 1) * of_int q \<le> 2 powi (?d - 1) * (2::rat) powi (bitlen q)"
      using bitlen_powi(2)[OF q] by (intro mult_left_mono) simp_all
    also have "\<dots> = 2 powi (bitlen p - 1)"
      by (simp flip: power_int_add)
    also have "\<dots> \<le> of_int p" by (rule bitlen_powi[OF p])
    finally show ?thesis using qr by (simp add: x pos_le_divide_eq)
  qed
  have il: "ilog2 x = (if 2 powi ?d \<le> \<bar>x\<bar> then ?d else ?d - 1)"
    by (simp add: ilog2_def pq Let_def)
  show "2 powi (ilog2 x) \<le> \<bar>x\<bar>" using lo by (simp add: il)
  show "\<bar>x\<bar> < 2 powi (ilog2 x + 1)" using up by (simp add: il not_le)
qed

lemma ilog2_minus [simp]: "ilog2 (- x) = ilog2 x"
  by (simp add: ilog2_def)

lemma ilog2_less:
  assumes "x \<noteq> 0" "\<bar>x\<bar> < 2 powi e"
  shows "ilog2 x < e"
proof -
  have "(2::rat) powi (ilog2 x) < 2 powi e"
    using ilog2_bounds(1)[OF assms(1)] assms(2) by simp
  then show ?thesis
    by (metis not_le one_le_numeral power_int_increasing leD)
qed

lemma ilog2_mono_pos:
  assumes "0 < x" "x \<le> y"
  shows "ilog2 x \<le> ilog2 y"
proof (rule ccontr)
  assume "\<not> ilog2 x \<le> ilog2 y"
  then have "ilog2 y + 1 \<le> ilog2 x" by simp
  then have "(2::rat) powi (ilog2 y + 1) \<le> 2 powi (ilog2 x)"
    by (intro power_int_increasing) simp_all
  also have "\<dots> \<le> \<bar>x\<bar>" using assms(1) by (intro ilog2_bounds) simp
  also have "\<dots> \<le> \<bar>y\<bar>" using assms by simp
  also have "\<dots> < 2 powi (ilog2 y + 1)" using assms by (intro ilog2_bounds) simp
  finally show False by simp
qed

text \<open>Rounding to an integer is monotone, odd and fixes the integers.\<close>

lemma rne_of_int [simp]: "rne (of_int n) = n"
  by (simp add: rne_def)

lemma rne_cases: "rne x = \<lfloor>x\<rfloor> \<or> rne x = \<lfloor>x\<rfloor> + 1"
  by (simp add: rne_def Let_def)

lemma rne_mono: "x \<le> y \<Longrightarrow> rne x \<le> rne y"
proof -
  assume xy: "x \<le> y"
  then have fl: "\<lfloor>x\<rfloor> \<le> \<lfloor>y\<rfloor>" by (rule floor_mono)
  show ?thesis
  proof (cases "\<lfloor>x\<rfloor> = \<lfloor>y\<rfloor>")
    case True
    with xy show ?thesis by (auto simp: rne_def Let_def)
  next
    case False
    with fl have "\<lfloor>x\<rfloor> + 1 \<le> \<lfloor>y\<rfloor>" by simp
    moreover have "rne x \<le> \<lfloor>x\<rfloor> + 1" using rne_cases[of x] by auto
    moreover have "\<lfloor>y\<rfloor> \<le> rne y" using rne_cases[of y] by auto
    ultimately show ?thesis by linarith
  qed
qed

lemma rne_minus: "rne (- x) = - rne x"
proof (cases "x \<in> \<int>")
  case True
  then obtain n where "x = of_int n" by (auto elim: Ints_cases)
  then show ?thesis by (simp flip: of_int_minus)
next
  case False
  then have "x \<noteq> of_int \<lfloor>x\<rfloor>" by (metis Ints_of_int)
  then have fl: "\<lfloor>- x\<rfloor> = - \<lfloor>x\<rfloor> - 1"
    by (simp add: floor_minus ceiling_altdef)
  show ?thesis
    unfolding rne_def Let_def fl by (auto simp: field_simps)
qed

text \<open>
  Rounding to the binary32 grid is monotone and fixes the grid points; in particular it
  fixes every integer below \<open>2 ^ 24\<close> in magnitude and every half of one.
\<close>

lemma powi_24: "(2::rat) powi (e + 1) = of_int (2 ^ 24) * 2 powi (e - 23)"
proof -
  have eq: "e + 1 = 24 + (e - 23)" by linarith
  have "(2::rat) powi (e + 1) = 2 powi (24 + (e - 23))" by (subst eq) (rule refl)
  also have "\<dots> = 2 powi 24 * 2 powi (e - 23)" by (rule power_int_add) simp
  also have "\<dots> = of_int (2 ^ 24) * 2 powi (e - 23)" by simp
  finally show ?thesis .
qed

lemma powi_23: "(2::rat) powi e = of_int (2 ^ 23) * 2 powi (e - 23)"
proof -
  have eq: "e = 23 + (e - 23)" by linarith
  have "(2::rat) powi e = 2 powi (23 + (e - 23))" by (subst eq) (simp only: add_diff_cancel_left' diff_add_cancel add.commute)
  also have "\<dots> = 2 powi 23 * 2 powi (e - 23)" by (rule power_int_add) simp
  also have "\<dots> = of_int (2 ^ 23) * 2 powi (e - 23)" by simp
  finally show ?thesis .
qed

lemma ulp_f32_pos [simp]: "0 < ulp_f32 x"
  by (simp add: ulp_f32_def)

lemma ulp_f32_minus [simp]: "ulp_f32 (- x) = ulp_f32 x"
  by (simp add: ulp_f32_def)

lemma nearest_f32_minus: "nearest_f32 (- x) = - nearest_f32 x"
  by (simp add: nearest_f32_def rne_minus)

lemma nearest_f32_0 [simp]: "nearest_f32 0 = 0"
  by (simp add: nearest_f32_def rne_def)

lemma grid_mono:
  assumes "0 < u" "a \<le> b"
  shows "of_int (rne (a / u)) * u \<le> (of_int (rne (b / u)) * u :: rat)"
proof -
  from assms have "a / u \<le> b / u" by (simp add: divide_right_mono)
  then have "rne (a / u) \<le> rne (b / u)" by (rule rne_mono)
  then have "(of_int (rne (a / u)) :: rat) \<le> of_int (rne (b / u))" by simp
  with assms(1) show ?thesis by (simp add: mult_right_mono)
qed

lemma grid_point:
  assumes "0 < u" "a = of_int k * u"
  shows "of_int (rne (a / u)) * u = (a :: rat)"
  using assms by simp

lemma nearest_f32_mono_pos:
  assumes "0 < x" "x \<le> y"
  shows "nearest_f32 x \<le> nearest_f32 y"
proof -
  let ?ex = "max (ilog2 x) (- 126)" and ?ey = "max (ilog2 y) (- 126)"
  have ux: "ulp_f32 x = 2 powi (?ex - 23)" and uy: "ulp_f32 y = 2 powi (?ey - 23)"
    by (simp_all add: ulp_f32_def)
  from assms have y: "0 < y" by simp
  have le: "?ex \<le> ?ey" using ilog2_mono_pos[OF assms] by simp
  show ?thesis
  proof (cases "?ex = ?ey")
    case True
    then have "ulp_f32 x = ulp_f32 y" by (simp add: ux uy)
    then show ?thesis
      unfolding nearest_f32_def using grid_mono[of "ulp_f32 y" x y] assms by simp
  next
    case False
    with le have lt: "?ex < ?ey" by linarith
    then have ey: "?ey = ilog2 y" by linarith
    have e1: "?ex + 1 \<le> ?ey" using lt by linarith
    have "x < 2 powi (ilog2 x + 1)" using ilog2_bounds(2)[of x] assms(1) by simp
    also have "\<dots> \<le> 2 powi (?ex + 1)" by (intro power_int_increasing) simp_all
    finally have xb: "x \<le> 2 powi (?ex + 1)" by simp
    have g1: "(2::rat) powi (?ex + 1) = of_int (2 ^ 24) * ulp_f32 x"
      unfolding ux by (rule powi_24)
    have "nearest_f32 x \<le> of_int (rne (2 powi (?ex + 1) / ulp_f32 x)) * ulp_f32 x"
      unfolding nearest_f32_def by (rule grid_mono[OF ulp_f32_pos xb])
    also have "\<dots> = 2 powi (?ex + 1)"
      by (rule grid_point[OF ulp_f32_pos g1])
    also have "\<dots> \<le> 2 powi ?ey"
      by (rule power_int_increasing[OF e1]) simp
    also have "\<dots> = of_int (rne (2 powi ?ey / ulp_f32 y)) * ulp_f32 y"
    proof -
      have "(2::rat) powi ?ey = of_int (2 ^ 23) * ulp_f32 y"
        unfolding uy by (rule powi_23)
      from grid_point[OF ulp_f32_pos this] show ?thesis by simp
    qed
    also have "\<dots> \<le> nearest_f32 y"
    proof -
      have "2 powi ?ey \<le> y" using ilog2_bounds(1)[of y] y ey by simp
      then show ?thesis unfolding nearest_f32_def by (rule grid_mono[OF ulp_f32_pos])
    qed
    finally show ?thesis .
  qed
qed

lemma nearest_f32_nonneg: "0 \<le> x \<Longrightarrow> 0 \<le> nearest_f32 x"
proof -
  assume "0 \<le> x"
  then have "0 \<le> x / ulp_f32 x" by (intro divide_nonneg_pos) simp_all
  then have "rne 0 \<le> rne (x / ulp_f32 x)" by (rule rne_mono)
  then have "0 \<le> rne (x / ulp_f32 x)" by (simp add: rne_def)
  then show ?thesis
    using less_imp_le[OF ulp_f32_pos[of x]] by (simp add: nearest_f32_def)
qed

lemma nearest_f32_mono:
  assumes "x \<le> y"
  shows "nearest_f32 x \<le> nearest_f32 y"
proof -
  consider "0 < x" | "x \<le> 0" "0 \<le> y" | "y < 0" by linarith
  then show ?thesis
  proof cases
    case 1
    then show ?thesis using assms by (rule nearest_f32_mono_pos)
  next
    case 2
    have "nearest_f32 x \<le> 0"
      using nearest_f32_nonneg[of "- x"] 2(1) by (simp add: nearest_f32_minus)
    also have "0 \<le> nearest_f32 y" using 2(2) by (rule nearest_f32_nonneg)
    finally show ?thesis .
  next
    case 3
    then have "0 < - y" "- y \<le> - x" using assms by simp_all
    then have "nearest_f32 (- y) \<le> nearest_f32 (- x)" by (rule nearest_f32_mono_pos)
    then show ?thesis by (simp add: nearest_f32_minus)
  qed
qed

lemma nearest_f32_exact:
  assumes x: "x = of_int m * 2 powi k" and b: "\<bar>x\<bar> < 2 powi (k + 24)" and k: "- 149 \<le> k"
  shows "nearest_f32 x = x"
proof (cases "x = 0")
  case True
  then show ?thesis by simp
next
  case False
  let ?e = "max (ilog2 x) (- 126) - 23"
  have "ilog2 x < k + 24" by (rule ilog2_less[OF False b])
  with k have "?e \<le> k" by linarith
  then obtain j :: nat where j: "k = ?e + int j"
    by (metis zle_iff_zadd)
  have "(2::rat) powi k = 2 powi int j * 2 powi ?e"
    unfolding j by (subst add.commute) (rule power_int_add, simp)
  then have "x = of_int (m * 2 ^ j) * ulp_f32 x"
    by (simp add: x ulp_f32_def)
  from grid_point[OF ulp_f32_pos this] show ?thesis
    by (simp add: nearest_f32_def)
qed

lemma nearest_f32_of_int:
  assumes "\<bar>n\<bar> < 16777216"
  shows "nearest_f32 (of_int n) = of_int n"
proof (rule nearest_f32_exact[where m = n and k = 0])
  show "(of_int n :: rat) = of_int n * 2 powi 0" by simp
  have "\<bar>of_int n :: rat\<bar> = of_int \<bar>n\<bar>" by simp
  also have "\<dots> < of_int 16777216" using assms by (simp only: of_int_less_iff)
  finally show "\<bar>of_int n :: rat\<bar> < 2 powi (0 + 24)" by simp
qed simp

lemma nearest_f32_half: "nearest_f32 (of_int n / 2) = of_int n / 2" if "\<bar>n\<bar> < 16777216"
proof (rule nearest_f32_exact[where m = n and k = "-1"])
  show "(of_int n / 2 :: rat) = of_int n * 2 powi (- 1)" by (simp add: power_int_minus)
  have "\<bar>of_int n :: rat\<bar> = of_int \<bar>n\<bar>" by simp
  also have "\<dots> < of_int 16777216" using that by (simp only: of_int_less_iff)
  finally show "\<bar>of_int n / 2 :: rat\<bar> < 2 powi (- 1 + 24)" by simp
qed simp

lemma nearest_100: "nearest_f32 100 = 100"
  using nearest_f32_of_int[of 100] by simp

lemma nearest_1: "nearest_f32 1 = 1"
  using nearest_f32_of_int[of 1] by simp

lemma nearest_half: "nearest_f32 (1 / 2) = 1 / 2"
  using nearest_f32_half[of 1] by simp

lemma nearest_201_half: "nearest_f32 (201 / 2) = 201 / 2"
  using nearest_f32_half[of 201] by simp

lemma round_f32_between:
  assumes "a \<le> x" "x \<le> b" "nearest_f32 a = a" "nearest_f32 b = b"
    and "- (2 powi 128) < a" "b < 2 powi 128"
  shows "round_f32 x = Finite (nearest_f32 x) \<and> a \<le> nearest_f32 x \<and> nearest_f32 x \<le> b"
proof -
  have lo: "a \<le> nearest_f32 x" using nearest_f32_mono[OF assms(1)] assms(3) by simp
  have hi: "nearest_f32 x \<le> b" using nearest_f32_mono[OF assms(2)] assms(4) by simp
  from lo hi assms(5,6) have "\<bar>nearest_f32 x\<bar> < 2 powi 128" by linarith
  then show ?thesis using lo hi by (simp add: round_f32_def Let_def)
qed

lemma round_f32_of_int:
  assumes "\<bar>n\<bar> < 16777216"
  shows "round_f32 (of_int n) = Finite (of_int n)"
proof -
  have "\<bar>of_int n :: rat\<bar> = of_int \<bar>n\<bar>" by simp
  also have "\<dots> < of_int 16777216" using assms by (simp only: of_int_less_iff)
  finally have "\<bar>of_int n :: rat\<bar> < 2 powi 128" by simp
  then show ?thesis
    by (simp add: round_f32_def Let_def nearest_f32_of_int[OF assms])
qed

lemma f32_of_u16_eq: "f32_of_u16 w = Finite (of_int (uint w))"
proof -
  have "uint w < 2 ^ LENGTH(16)" by (rule unsigned_less)
  then have "\<bar>uint w\<bar> < 16777216" by simp
  from round_f32_of_int[OF this] show ?thesis
    by (simp add: f32_of_u16_def)
qed

lemma f32_sub_u16:
  "f32_sub (f32_of_u16 a) (f32_of_u16 b) = Finite (of_int (uint a - uint b))"
proof -
  have "uint a < 2 ^ LENGTH(16)" "uint b < 2 ^ LENGTH(16)" by (rule unsigned_less)+
  then have "uint a < 65536" "uint b < 65536" by simp_all
  moreover have "0 \<le> uint a" "0 \<le> uint b" by simp_all
  ultimately have "\<bar>uint a - uint b\<bar> < 16777216" by linarith
  from round_f32_of_int[OF this] show ?thesis
    by (simp add: f32_sub_def f32_of_u16_eq)
qed

text \<open>The rounding error is at most half a unit in the last place.\<close>

lemma rne_error: "\<bar>of_int (rne x) - x\<bar> \<le> 1 / 2"
proof -
  have "of_int \<lfloor>x\<rfloor> \<le> x" "x < of_int \<lfloor>x\<rfloor> + 1" by linarith+
  then show ?thesis by (auto simp: rne_def Let_def abs_le_iff)
qed

lemma ulp_f32_nonzero [simp]: "ulp_f32 x \<noteq> 0"
  using ulp_f32_pos[of x] by linarith

lemma nearest_f32_error: "\<bar>nearest_f32 x - x\<bar> \<le> ulp_f32 x / 2"
proof -
  let ?u = "ulp_f32 x"
  have u: "0 < ?u" by simp
  have "nearest_f32 x - x = (of_int (rne (x / ?u)) - x / ?u) * ?u"
    by (simp add: nearest_f32_def algebra_simps)
  then have "\<bar>nearest_f32 x - x\<bar> = \<bar>of_int (rne (x / ?u)) - x / ?u\<bar> * ?u"
    by (simp only: abs_mult abs_of_pos[OF u])
  also have "\<dots> \<le> 1 / 2 * ?u"
    using rne_error[of "x / ?u"] less_imp_le[OF u] by (intro mult_right_mono)
  finally show ?thesis by simp
qed

lemma nearest_f32_error_bound:
  assumes "\<bar>x\<bar> < 2 powi e" "- 125 \<le> e"
  shows "\<bar>nearest_f32 x - x\<bar> \<le> 2 powi (e - 25)"
proof (cases "x = 0")
  case True
  then show ?thesis by simp
next
  case False
  have "ilog2 x < e" by (rule ilog2_less[OF False assms(1)])
  with assms(2) have "max (ilog2 x) (- 126) - 23 \<le> e - 24" by linarith
  then have "ulp_f32 x \<le> 2 powi (e - 24)"
    unfolding ulp_f32_def by (intro power_int_increasing) simp_all
  moreover have "(2::rat) powi (e - 24) = 2 * 2 powi (e - 25)"
  proof -
    have eq: "e - 24 = 1 + (e - 25)" by linarith
    have "(2::rat) powi (1 + (e - 25)) = 2 powi 1 * 2 powi (e - 25)"
      by (rule power_int_add) simp
    then show ?thesis by (subst eq) simp
  qed
  ultimately have "ulp_f32 x / 2 \<le> 2 powi (e - 25)" by simp
  with nearest_f32_error[of x] show ?thesis by linarith
qed

section \<open>The index mapper, branch by branch\<close>

lemma computeTurbidityIndex_loaded:
  "calLoaded s \<Longrightarrow>
   computeTurbidityIndex s raw = mapper_index (mapper_t (clearRaw (cal s)) (cloudyRaw (cal s)) raw)"
  by (simp add: computeTurbidityIndex_def mapper_index_def mapper_t_def Let_def)

lemma clamp01_range: "0 \<le> clamp01 y \<and> clamp01 y \<le> 1"
  by (simp add: clamp01_def Let_def)

lemma scale_index_range: "0 \<le> scale_index y \<and> scale_index y \<le> 100"
proof -
  let ?z = "clamp01 y * 100"
  have z: "0 \<le> ?z" "?z \<le> 100" using clamp01_range[of y] by simp_all
  have w: "0 \<le> nearest_f32 ?z" "nearest_f32 ?z \<le> 100"
    using nearest_f32_mono[OF z(1)] nearest_f32_mono[OF z(2)] by (simp_all add: nearest_100)
  then have "1 / 2 \<le> nearest_f32 ?z + 1 / 2" "nearest_f32 ?z + 1 / 2 \<le> 201 / 2" by simp_all
  then have v: "1 / 2 \<le> nearest_f32 (nearest_f32 ?z + 1 / 2)"
       "nearest_f32 (nearest_f32 ?z + 1 / 2) \<le> 201 / 2"
    using nearest_f32_mono[of "1 / 2" "nearest_f32 ?z + 1 / 2"]
      nearest_f32_mono[of "nearest_f32 ?z + 1 / 2" "201 / 2"]
    by (simp_all add: nearest_half nearest_201_half)
  from v(1) have "0 \<le> \<lfloor>nearest_f32 (nearest_f32 ?z + 1 / 2)\<rfloor>" by simp
  moreover from v(2) have "\<lfloor>nearest_f32 (nearest_f32 ?z + 1 / 2)\<rfloor> \<le> 100"
    by (simp add: floor_le_iff)
  ultimately show ?thesis by (simp add: scale_index_def)
qed

lemma mapper_index_Finite: "mapper_index (Finite y) = Some (scale_index y)"
proof -
  let ?z = "clamp01 y * 100"
  have t2: "(let t1 = (if f32_lt (Finite y) (Finite 0) then Finite 0 else Finite y)
             in if f32_gt t1 (Finite 1) then Finite 1 else t1) = Finite (clamp01 y)"
    by (simp add: clamp01_def Let_def f32_gt_def)
  have z: "0 \<le> ?z" "?z \<le> 100" using clamp01_range[of y] by simp_all
  have m: "round_f32 ?z = Finite (nearest_f32 ?z) \<and> 0 \<le> nearest_f32 ?z \<and> nearest_f32 ?z \<le> 100"
    by (rule round_f32_between[OF z]) (simp_all add: nearest_100)
  let ?w = "nearest_f32 ?z + 1 / 2"
  have w: "1 / 2 \<le> ?w" "?w \<le> 201 / 2" using m by simp_all
  have a: "round_f32 ?w = Finite (nearest_f32 ?w) \<and> 1 / 2 \<le> nearest_f32 ?w \<and> nearest_f32 ?w \<le> 201 / 2"
    by (rule round_f32_between[OF w]) (simp_all add: nearest_half nearest_201_half)
  have sum: "f32_add (f32_mul (Finite (clamp01 y)) (Finite 100)) (Finite (1 / 2)) = Finite (nearest_f32 ?w)"
    using m a by simp
  have conv: "f32_to_int (Finite (nearest_f32 ?w)) = Some (scale_index y)"
    using a scale_index_range[of y] by (simp add: scale_index_def Let_def)
  have "mapper_index (Finite y) =
      (case f32_to_int (f32_add (f32_mul (Finite (clamp01 y)) (Finite 100)) (Finite (1 / 2))) of
         None \<Rightarrow> None
       | Some idx \<Rightarrow>
           (let idx1 = (if idx < 0 then 0 else idx);
                idx2 = (if idx1 > 100 then 100 else idx1)
            in Some idx2))"
    unfolding mapper_index_def using t2 by (simp only: Let_def)
  also have "\<dots> = Some (scale_index y)"
    unfolding sum conv using scale_index_range[of y] by (simp add: Let_def)
  finally show ?thesis .
qed

lemma uint_u16_bounds: "0 \<le> uint (w :: u16) \<and> uint w \<le> 65535"
proof -
  have "uint w < 2 ^ LENGTH(16)" by (rule unsigned_less)
  then show ?thesis by simp
qed

lemma quotient_bounds:
  fixes n d :: int
  assumes "\<bar>n\<bar> \<le> 65535" "1 \<le> d"
  shows "- 65535 \<le> (of_int n / of_int d :: rat) \<and> (of_int n / of_int d :: rat) \<le> 65535"
proof -
  have d: "(1::rat) \<le> of_int d" using assms(2) by simp
  have n: "\<bar>of_int n :: rat\<bar> \<le> 65535"
  proof -
    have "\<bar>of_int n :: rat\<bar> = of_int \<bar>n\<bar>" by simp
    also have "\<dots> \<le> of_int 65535" using assms(1) by (simp only: of_int_le_iff)
    finally show ?thesis by simp
  qed
  have "\<bar>of_int n / of_int d :: rat\<bar> = \<bar>of_int n\<bar> / of_int d" using d by simp
  also have "\<dots> \<le> \<bar>of_int n\<bar> / 1" using d by (intro divide_left_mono) simp_all
  also have "\<dots> \<le> 65535" using n by simp
  finally show ?thesis by linarith
qed

lemma round_f32_quotient:
  fixes n d :: int
  assumes "\<bar>n\<bar> \<le> 65535" "1 \<le> d"
  shows "round_f32 (of_int n / of_int d) = Finite (nearest_f32 (of_int n / of_int d))"
proof -
  have e: "nearest_f32 (- 65535) = - 65535" "nearest_f32 65535 = 65535"
    using nearest_f32_of_int[of "- 65535"] nearest_f32_of_int[of 65535] by simp_all
  from quotient_bounds[OF assms]
  have "- 65535 \<le> (of_int n / of_int d :: rat)" "(of_int n / of_int d :: rat) \<le> 65535"
    by simp_all
  from round_f32_between[OF this e] show ?thesis by simp
qed

lemma mapper_t_regular:
  assumes "clear \<noteq> cloudy"
  shows "mapper_t clear cloudy raw = Finite (nearest_f32 (cal_quotient clear cloudy raw))"
proof -
  note b = uint_u16_bounds[of clear] uint_u16_bounds[of cloudy] uint_u16_bounds[of raw]
  have gt: "f32_gt (f32_of_u16 cloudy) (f32_of_u16 clear) \<longleftrightarrow> clear < cloudy"
    by (simp only: f32_gt_def f32_of_u16_eq f32_lt.simps of_int_less_iff word_less_def)
  show ?thesis
  proof (cases "clear < cloudy")
    case True
    then have d: "1 \<le> uint cloudy - uint clear" by (simp add: word_less_def)
    have n: "\<bar>uint raw - uint clear\<bar> \<le> 65535" using b by linarith
    from d have "uint cloudy - uint clear \<noteq> 0" by linarith
    then have nz: "(of_int (uint cloudy - uint clear) :: rat) \<noteq> 0"
      by (simp only: of_int_eq_0_iff not_False_eq_True)
    show ?thesis
      by (simp only: mapper_t_def gt True if_True f32_sub_u16 f32_div.simps nz if_False
          cal_quotient_def round_f32_quotient[OF n d])
  next
    case False
    with assms have "cloudy < clear" by simp
    then have d: "1 \<le> uint clear - uint cloudy" by (simp add: word_less_def)
    have n: "\<bar>uint clear - uint raw\<bar> \<le> 65535" using b by linarith
    from d have "uint clear - uint cloudy \<noteq> 0" by linarith
    then have nz: "(of_int (uint clear - uint cloudy) :: rat) \<noteq> 0"
      by (simp only: of_int_eq_0_iff not_False_eq_True)
    show ?thesis
      by (simp only: mapper_t_def gt False if_False f32_sub_u16 f32_div.simps nz cal_quotient_def
          round_f32_quotient[OF n d])
  qed
qed

lemma computeTurbidityIndex_calibrated:
  assumes "calLoaded s" "clearRaw (cal s) \<noteq> cloudyRaw (cal s)"
  shows "computeTurbidityIndex s raw =
         Some (scale_index (nearest_f32 (cal_quotient (clearRaw (cal s)) (cloudyRaw (cal s)) raw)))"
  by (simp only: computeTurbidityIndex_loaded[OF assms(1)] mapper_t_regular[OF assms(2)]
      mapper_index_Finite)

lemma scale_index_low: "y \<le> 0 \<Longrightarrow> scale_index y = 0"
proof -
  assume "y \<le> 0"
  then have "clamp01 y = 0" by (simp add: clamp01_def Let_def)
  moreover have "\<lfloor>1 / 2 :: rat\<rfloor> = 0" by (simp add: floor_eq_iff)
  ultimately show ?thesis by (simp add: scale_index_def nearest_half)
qed

lemma scale_index_high: "1 \<le> y \<Longrightarrow> scale_index y = 100"
proof -
  assume "1 \<le> y"
  then have "clamp01 y = 1" by (simp add: clamp01_def Let_def)
  moreover have "\<lfloor>201 / 2 :: rat\<rfloor> = 100" by (simp add: floor_eq_iff)
  moreover have "(100::rat) + 1 / 2 = 201 / 2" by simp
  ultimately show ?thesis by (simp add: scale_index_def nearest_100 nearest_201_half)
qed

lemma scale_index_nearest_low: "q \<le> 0 \<Longrightarrow> scale_index (nearest_f32 q) = 0"
  using nearest_f32_mono[of q 0] by (simp add: scale_index_low)

lemma scale_index_nearest_high: "1 \<le> q \<Longrightarrow> scale_index (nearest_f32 q) = 100"
  using nearest_f32_mono[of 1 q] by (simp add: scale_index_high nearest_1)

lemma scale_index_half: "scale_index (nearest_f32 (1 / 2)) = 50"
proof -
  have c: "clamp01 (1 / 2) * 100 = 50" by (simp add: clamp01_def Let_def)
  have n50: "nearest_f32 50 = 50" using nearest_f32_of_int[of 50] by simp
  have h: "(50::rat) + 1 / 2 = 101 / 2" by simp
  have n101: "nearest_f32 (101 / 2) = 101 / 2" using nearest_f32_half[of 101] by simp
  have f: "\<lfloor>101 / 2 :: rat\<rfloor> = 50" by (simp add: floor_eq_iff)
  show ?thesis unfolding nearest_half scale_index_def c n50 h n101 f ..
qed

lemma cal_quotient_clear_side:
  assumes "clear \<noteq> cloudy"
    and "(clear < cloudy \<and> raw \<le> clear) \<or> (cloudy < clear \<and> clear \<le> raw)"
  shows "cal_quotient clear cloudy raw \<le> 0"
proof (cases "clear < cloudy")
  case True
  with assms(2) have "raw \<le> clear" by auto
  then have "uint raw - uint clear \<le> 0" by (simp add: word_le_def)
  moreover from True have "0 < uint cloudy - uint clear" by (simp add: word_less_def)
  ultimately have "(of_int (uint raw - uint clear) :: rat) / of_int (uint cloudy - uint clear) \<le> 0"
    by (intro divide_nonpos_pos) (simp_all only: of_int_le_0_iff of_int_0_less_iff)
  with True show ?thesis by (simp only: cal_quotient_def if_True)
next
  case False
  with assms have "cloudy < clear" "clear \<le> raw" by auto
  then have "uint clear - uint raw \<le> 0" "0 < uint clear - uint cloudy"
    by (simp_all add: word_le_def word_less_def)
  then have "(of_int (uint clear - uint raw) :: rat) / of_int (uint clear - uint cloudy) \<le> 0"
    by (intro divide_nonpos_pos) (simp_all only: of_int_le_0_iff of_int_0_less_iff)
  with False show ?thesis by (simp only: cal_quotient_def if_False)
qed

lemma cal_quotient_cloudy_side:
  assumes "clear \<noteq> cloudy"
    and "(clear < cloudy \<and> cloudy \<le> raw) \<or> (cloudy < clear \<and> raw \<le> cloudy)"
  shows "1 \<le> cal_quotient clear cloudy raw"
proof (cases "clear < cloudy")
  case True
  with assms(2) have "cloudy \<le> raw" by auto
  then have "uint cloudy - uint clear \<le> uint raw - uint clear" by (simp add: word_le_def)
  then have "(of_int (uint cloudy - uint clear) :: rat) \<le> of_int (uint raw - uint clear)"
    by (simp only: of_int_le_iff)
  moreover from True have "0 < uint cloudy - uint clear" by (simp add: word_less_def)
  then have "(0::rat) < of_int (uint cloudy - uint clear)" by (simp only: of_int_0_less_iff)
  ultimately have "1 \<le> (of_int (uint raw - uint clear) :: rat) / of_int (uint cloudy - uint clear)"
    by (simp only: pos_le_divide_eq mult_1)
  with True show ?thesis by (simp only: cal_quotient_def if_True)
next
  case False
  with assms have "cloudy < clear" "raw \<le> cloudy" by auto
  then have "uint clear - uint cloudy \<le> uint clear - uint raw" "0 < uint clear - uint cloudy"
    by (simp_all add: word_le_def word_less_def)
  then have "(of_int (uint clear - uint cloudy) :: rat) \<le> of_int (uint clear - uint raw)"
    "(0::rat) < of_int (uint clear - uint cloudy)"
    by (simp_all only: of_int_le_iff of_int_0_less_iff)
  then have "1 \<le> (of_int (uint clear - uint raw) :: rat) / of_int (uint clear - uint cloudy)"
    by (simp only: pos_le_divide_eq mult_1)
  with False show ?thesis by (simp only: cal_quotient_def if_False)
qed

lemma cal_quotient_oriented:
  assumes "clear \<noteq> cloudy"
  shows "cal_quotient clear cloudy raw = oriented_fraction clear cloudy raw"
proof (cases "clear < cloudy")
  case True
  then have "uint clear < uint cloudy" by (simp add: word_less_def)
  then have "min (uint clear) (uint cloudy) = uint clear" "max (uint clear) (uint cloudy) = uint cloudy"
    by simp_all
  then show ?thesis using True by (simp only: cal_quotient_def oriented_fraction_def Let_def if_True)
next
  case False
  with assms have "cloudy < clear" by simp
  then have lt: "uint cloudy < uint clear" by (simp add: word_less_def)
  then have mm: "min (uint clear) (uint cloudy) = uint cloudy" "max (uint clear) (uint cloudy) = uint clear"
    by simp_all
  define a b r :: rat where "a = of_int (uint clear)" and "b = of_int (uint cloudy)"
    and "r = of_int (uint raw)"
  have "b < a" using lt by (simp only: a_def b_def of_int_less_iff)
  then have "(a - r) / (a - b) = 1 - (r - b) / (a - b)"
    by (simp add: field_simps)
  then have "(of_int (uint clear - uint raw) :: rat) / of_int (uint clear - uint cloudy)
      = 1 - of_int (uint raw - uint cloudy) / of_int (uint clear - uint cloudy)"
    by (simp only: a_def b_def r_def of_int_diff)
  then show ?thesis using False by (simp only: cal_quotient_def oriented_fraction_def Let_def mm if_False)
qed

lemma computeTurbidityIndex_uncalibrated:
  assumes "\<not> calLoaded s"
  shows "\<exists>idx. computeTurbidityIndex s raw = Some idx \<and> 0 \<le> idx \<and> idx \<le> 100"
  using assms by (simp add: computeTurbidityIndex_def Let_def)

lemma mapper_t_degenerate:
  "mapper_t c c raw = (if raw < c then PInf else if c < raw then NInf else NaN)"
proof -
  have gt: "\<not> f32_gt (f32_of_u16 c) (f32_of_u16 c)"
    by (simp add: f32_gt_def f32_of_u16_eq)
  have den: "f32_sub (f32_of_u16 c) (f32_of_u16 c) = Finite 0"
    by (simp add: f32_sub_u16)
  have num: "f32_sub (f32_of_u16 c) (f32_of_u16 raw) = Finite (of_int (uint c - uint raw))"
    by (rule f32_sub_u16)
  have z: "(of_int (uint c - uint raw) :: rat) = 0 \<longleftrightarrow> \<not> raw < c \<and> \<not> c < raw"
    by (simp only: of_int_eq_0_iff word_less_def) (auto simp: word_uint_eq_iff)
  have p: "(0::rat) < of_int (uint c - uint raw) \<longleftrightarrow> raw < c"
    by (simp only: of_int_0_less_iff word_less_def) auto
  have "mapper_t c c raw = f32_div (Finite (of_int (uint c - uint raw))) (Finite 0)"
    by (simp only: mapper_t_def gt if_False den num)
  also have "\<dots> = (if raw < c then PInf else if c < raw then NInf else NaN)"
    using z p by (simp only: f32_div.simps) auto
  finally show ?thesis .
qed

lemma mapper_index_PInf: "mapper_index PInf = Some 100"
proof -
  have "mapper_index PInf = mapper_index (Finite 1)"
    by (simp add: mapper_index_def f32_gt_def)
  then show ?thesis by (simp add: mapper_index_Finite scale_index_high)
qed

lemma mapper_index_NInf: "mapper_index NInf = Some 0"
proof -
  have "mapper_index NInf = mapper_index (Finite 0)"
    by (simp add: mapper_index_def f32_gt_def)
  then show ?thesis by (simp add: mapper_index_Finite scale_index_low)
qed

lemma mapper_index_NaN: "mapper_index NaN = None"
  by (simp add: mapper_index_def f32_gt_def)

lemma computeTurbidityIndex_degenerate:
  assumes "calLoaded s" "clearRaw (cal s) = cloudyRaw (cal s)"
  shows "computeTurbidityIndex s raw =
          (if raw < clearRaw (cal s) then Some 100
           else if clearRaw (cal s) < raw then Some 0
           else None)"
  by (simp add: computeTurbidityIndex_loaded[OF assms(1)] assms(2)[symmetric] mapper_t_degenerate
      mapper_index_PInf mapper_index_NInf mapper_index_NaN)

lemma loaded_state_fields [simp]:
  "calLoaded (loaded_state c d)" "clearRaw (cal (loaded_state c d)) = c"
  "cloudyRaw (cal (loaded_state c d)) = d"
  by (simp_all add: loaded_state_def)

text \<open>
  The index differs from the exact value \<open>100 * t\<close> by at most one half and a rounding
  error below \<open>2 powi (- 16)\<close>.
\<close>

lemma clamp01_nearest_close: "\<bar>clamp01 (nearest_f32 q) - clamp01 q\<bar> \<le> 1 / 16777216"
proof -
  consider "q < 0" | "1 < q" | "0 \<le> q" "q \<le> 1" by linarith
  then show ?thesis
  proof cases
    case 1
    then have "nearest_f32 q \<le> 0" using nearest_f32_mono[of q 0] by simp
    with 1 show ?thesis by (simp add: clamp01_def Let_def)
  next
    case 2
    then have "1 \<le> nearest_f32 q" using nearest_f32_mono[of 1 q] by (simp add: nearest_1)
    with 2 show ?thesis by (simp add: clamp01_def Let_def)
  next
    case 3
    have n: "0 \<le> nearest_f32 q" "nearest_f32 q \<le> 1"
      using nearest_f32_mono[OF 3(1)] nearest_f32_mono[OF 3(2)] by (simp_all add: nearest_1)
    have "\<bar>q\<bar> < 2 powi 1" using 3 by simp
    from nearest_f32_error_bound[OF this] have "\<bar>nearest_f32 q - q\<bar> \<le> 2 powi (- 24)" by simp
    then have "\<bar>nearest_f32 q - q\<bar> \<le> 1 / 16777216" by (simp add: power_int_minus)
    moreover have "clamp01 (nearest_f32 q) = nearest_f32 q" "clamp01 q = q"
      using n 3 by (simp_all add: clamp01_def Let_def)
    ultimately show ?thesis by simp
  qed
qed

lemma scale_index_accuracy:
  "\<bar>of_int (scale_index (nearest_f32 q)) - 100 * clamp01 q\<bar> \<le> 1 / 2 + 1 / 65536"
proof -
  let ?y = "clamp01 (nearest_f32 q)"
  let ?z = "nearest_f32 (?y * 100)"
  let ?w = "nearest_f32 (?z + 1 / 2)"
  have y: "0 \<le> ?y" "?y \<le> 1" using clamp01_range[of "nearest_f32 q"] by simp_all
  then have y100: "0 \<le> ?y * 100" "?y * 100 \<le> 100" by simp_all
  have z: "0 \<le> ?z" "?z \<le> 100"
    using nearest_f32_mono[OF y100(1)] nearest_f32_mono[OF y100(2)] by (simp_all add: nearest_100)
  have e1: "\<bar>?z - ?y * 100\<bar> \<le> 1 / 262144"
  proof -
    have "\<bar>?y * 100\<bar> < 2 powi 7" using y100 by simp
    from nearest_f32_error_bound[OF this] show ?thesis by (simp add: power_int_minus)
  qed
  have e2: "\<bar>?w - (?z + 1 / 2)\<bar> \<le> 1 / 262144"
  proof -
    have "\<bar>?z + 1 / 2\<bar> < 2 powi 7" using z by simp
    from nearest_f32_error_bound[OF this] show ?thesis by (simp add: power_int_minus)
  qed
  have e0: "\<bar>?y * 100 - 100 * clamp01 q\<bar> \<le> 100 / 16777216"
  proof -
    have "?y * 100 - 100 * clamp01 q = 100 * (?y - clamp01 q)" by (simp add: algebra_simps)
    then have "\<bar>?y * 100 - 100 * clamp01 q\<bar> = \<bar>100 * (?y - clamp01 q)\<bar>"
      by (rule arg_cong)
    also have "\<dots> = 100 * \<bar>?y - clamp01 q\<bar>"
      by (simp only: abs_mult abs_numeral)
    finally have "\<bar>?y * 100 - 100 * clamp01 q\<bar> = 100 * \<bar>?y - clamp01 q\<bar>" .
    also have "\<dots> \<le> 100 * (1 / 16777216)"
      using clamp01_nearest_close[of q] by (intro mult_left_mono) simp_all
    finally show ?thesis by simp
  qed
  have w: "\<bar>?w - (100 * clamp01 q + 1 / 2)\<bar> \<le> 1 / 65536"
    using e0 e1 e2 by linarith
  have f: "of_int \<lfloor>?w\<rfloor> \<le> ?w" "?w < of_int \<lfloor>?w\<rfloor> + 1" by linarith+
  have s: "scale_index (nearest_f32 q) = \<lfloor>?w\<rfloor>" by (simp add: scale_index_def)
  show ?thesis unfolding s using w f by linarith
qed

text \<open>
  The same in terms of rounding halves upwards: the index lies between the values for
  \<open>100 * t\<close> moved down and up by \<open>1 / 65536\<close>, and it is the exact value when none of
  the three operations rounds.
\<close>

lemma scale_sum_close:
  "\<bar>nearest_f32 (nearest_f32 (clamp01 (nearest_f32 q) * 100) + 1 / 2) - (100 * clamp01 q + 1 / 2)\<bar>
     \<le> 1 / 65536"
proof -
  let ?y = "clamp01 (nearest_f32 q)"
  let ?z = "nearest_f32 (?y * 100)"
  let ?w = "nearest_f32 (?z + 1 / 2)"
  have y: "0 \<le> ?y" "?y \<le> 1" using clamp01_range[of "nearest_f32 q"] by simp_all
  then have y100: "0 \<le> ?y * 100" "?y * 100 \<le> 100" by simp_all
  have z: "0 \<le> ?z" "?z \<le> 100"
    using nearest_f32_mono[OF y100(1)] nearest_f32_mono[OF y100(2)] by (simp_all add: nearest_100)
  have e1: "\<bar>?z - ?y * 100\<bar> \<le> 1 / 262144"
  proof -
    have "\<bar>?y * 100\<bar> < 2 powi 7" using y100 by simp
    from nearest_f32_error_bound[OF this] show ?thesis by (simp add: power_int_minus)
  qed
  have e2: "\<bar>?w - (?z + 1 / 2)\<bar> \<le> 1 / 262144"
  proof -
    have "\<bar>?z + 1 / 2\<bar> < 2 powi 7" using z by simp
    from nearest_f32_error_bound[OF this] show ?thesis by (simp add: power_int_minus)
  qed
  have e0: "\<bar>?y * 100 - 100 * clamp01 q\<bar> \<le> 100 / 16777216"
    using clamp01_nearest_close[of q] by linarith
  show ?thesis using e0 e1 e2 by linarith
qed

lemma scale_index_sandwich:
  "\<lfloor>100 * clamp01 q + 1 / 2 - 1 / 65536\<rfloor> \<le> scale_index (nearest_f32 q) \<and>
   scale_index (nearest_f32 q) \<le> \<lfloor>100 * clamp01 q + 1 / 2 + 1 / 65536\<rfloor>"
proof -
  let ?w = "nearest_f32 (nearest_f32 (clamp01 (nearest_f32 q) * 100) + 1 / 2)"
  have s: "scale_index (nearest_f32 q) = \<lfloor>?w\<rfloor>" by (simp add: scale_index_def)
  from scale_sum_close[of q]
  have "100 * clamp01 q + 1 / 2 - 1 / 65536 \<le> ?w" "?w \<le> 100 * clamp01 q + 1 / 2 + 1 / 65536"
    by linarith+
  then show ?thesis unfolding s by (simp add: floor_mono)
qed

lemma scale_index_near_round_half_up:
  "\<bar>scale_index (nearest_f32 q) - round_half_up (100 * clamp01 q)\<bar> \<le> 1"
proof -
  let ?x = "100 * clamp01 q + 1 / 2"
  from scale_index_sandwich[of q]
  have a: "\<lfloor>?x - 1 / 65536\<rfloor> \<le> scale_index (nearest_f32 q)"
    and b: "scale_index (nearest_f32 q) \<le> \<lfloor>?x + 1 / 65536\<rfloor>" by simp_all
  have "\<lfloor>?x - 1\<rfloor> \<le> \<lfloor>?x - 1 / 65536\<rfloor>" by (intro floor_mono) simp
  moreover have "\<lfloor>?x + 1 / 65536\<rfloor> \<le> \<lfloor>?x + 1\<rfloor>" by (intro floor_mono) simp
  moreover have "\<lfloor>?x - 1\<rfloor> = \<lfloor>?x\<rfloor> - 1" "\<lfloor>?x + 1\<rfloor> = \<lfloor>?x\<rfloor> + 1"
    using floor_diff_of_int[of ?x 1] floor_add_int[of ?x 1] by (simp_all only: of_int_1)
  ultimately show ?thesis using a b unfolding round_half_up_def by linarith
qed

lemma scale_index_unrounded:
  assumes "nearest_f32 q = q" "nearest_f32 (clamp01 q * 100) = clamp01 q * 100"
    "nearest_f32 (clamp01 q * 100 + 1 / 2) = clamp01 q * 100 + 1 / 2"
  shows "scale_index (nearest_f32 q) = round_half_up (100 * clamp01 q)"
  by (simp add: scale_index_def round_half_up_def assms mult.commute)

lemma scale_index_59_200: "scale_index (nearest_f32 (59 / 200)) = 29"
  by code_simp

text \<open>The product in the call of \<^verbatim>\<open>map\<close> fits a 32-bit \<^verbatim>\<open>long\<close>.\<close>

lemma map_call_no_overflow:
  "- 2147483648 \<le> (uint (raw :: u16) - 0) * (0 - 100) \<and> (uint raw - 0) * (0 - 100) \<le> 2147483647"
proof -
  have b: "0 \<le> uint raw" "uint raw \<le> 65535" using uint_u16_bounds[of raw] by simp_all
  have "(uint raw - 0) * (0 - 100) = - (100 * uint raw)" by simp
  then show ?thesis using b by linarith
qed

section \<open>The smoother, step by step\<close>

text \<open>
  The two constants, the blend of a state in the range of the samples, and the invariant
  that keeps every later state non-negative, so that the initialisation never runs again.
\<close>

lemma EMA_ALPHA_value: "EMA_ALPHA = Finite (13421773 / 67108864)"
  by code_simp

lemma one_minus_alpha: "f32_sub (Finite 1) EMA_ALPHA = Finite (13421773 / 16777216)"
  by code_simp

lemma round_f32_nonneg_below:
  assumes "0 \<le> x" "x \<le> of_int n" "0 \<le> n" "n < 16777216"
  shows "round_f32 x = Finite (nearest_f32 x) \<and> 0 \<le> nearest_f32 x \<and> nearest_f32 x \<le> of_int n"
proof -
  have n: "nearest_f32 (of_int n) = of_int n" using assms(3,4) by (intro nearest_f32_of_int) simp
  have "(of_int n :: rat) < of_int 16777216" using assms(4) by (simp only: of_int_less_iff)
  then have b: "(of_int n :: rat) < 2 powi 128" by simp
  from round_f32_between[OF assms(1,2) nearest_f32_0 n _ b] show ?thesis by simp
qed

lemma u16_rat_bounds: "0 \<le> (of_int (uint (s :: u16)) :: rat) \<and> (of_int (uint s) :: rat) \<le> 65535"
proof -
  have "0 \<le> uint s \<and> uint s \<le> 65535" by (rule uint_u16_bounds)
  then have "(of_int 0 :: rat) \<le> of_int (uint s)" "(of_int (uint s) :: rat) \<le> of_int 65535"
    by (simp_all only: of_int_le_iff)
  then show ?thesis by simp
qed

lemma ema_blend_close:
  assumes e: "0 \<le> e" "e \<le> 65535 + 1 / 16"
  shows "ema_blend (Finite e) s
           = Finite (nearest_f32 (nearest_f32 (13421773 / 67108864 * of_int (uint s))
                                  + nearest_f32 (13421773 / 16777216 * e))) \<and>
         0 \<le> nearest_f32 (nearest_f32 (13421773 / 67108864 * of_int (uint s))
                                  + nearest_f32 (13421773 / 16777216 * e)) \<and>
         \<bar>nearest_f32 (nearest_f32 (13421773 / 67108864 * of_int (uint s))
                                  + nearest_f32 (13421773 / 16777216 * e))
            - (13421773 / 67108864 * of_int (uint s) + 13421773 / 16777216 * e)\<bar> \<le> 13 / 2048"
proof -
  let ?sr = "of_int (uint s) :: rat"
  let ?x = "13421773 / 67108864 * ?sr" and ?z = "13421773 / 16777216 * e"
  have sr: "0 \<le> ?sr" "?sr \<le> 65535"
  proof -
    have "0 \<le> uint s \<and> uint s \<le> 65535" by (rule uint_u16_bounds)
    then have "(of_int 0 :: rat) \<le> of_int (uint s)" "(of_int (uint s) :: rat) \<le> of_int 65535"
      by (simp_all only: of_int_le_iff)
    then show "0 \<le> ?sr" "?sr \<le> 65535" by simp_all
  qed
  have x: "0 \<le> ?x" "?x \<le> of_int 16383" using sr by simp_all
  have z: "0 \<le> ?z" "?z \<le> of_int 65535" using e by simp_all
  from round_f32_nonneg_below[OF x]
  have p: "round_f32 ?x = Finite (nearest_f32 ?x)" "0 \<le> nearest_f32 ?x" "nearest_f32 ?x \<le> 16383"
    by simp_all
  from round_f32_nonneg_below[OF z]
  have q: "round_f32 ?z = Finite (nearest_f32 ?z)" "0 \<le> nearest_f32 ?z" "nearest_f32 ?z \<le> 65535"
    by simp_all
  let ?w = "nearest_f32 ?x + nearest_f32 ?z"
  have w: "0 \<le> ?w" "?w \<le> of_int 81918" using p q by simp_all
  from round_f32_nonneg_below[OF w]
  have y: "round_f32 ?w = Finite (nearest_f32 ?w)" "0 \<le> nearest_f32 ?w" by simp_all
  have ex: "\<bar>nearest_f32 ?x - ?x\<bar> \<le> 1 / 2048"
  proof -
    have "\<bar>?x\<bar> < 2 powi 14" using x by simp
    from nearest_f32_error_bound[OF this] show ?thesis by (simp add: power_int_minus)
  qed
  have ez: "\<bar>nearest_f32 ?z - ?z\<bar> \<le> 1 / 512"
  proof -
    have "\<bar>?z\<bar> < 2 powi 16" using z by simp
    from nearest_f32_error_bound[OF this] show ?thesis by (simp add: power_int_minus)
  qed
  have ew: "\<bar>nearest_f32 ?w - ?w\<bar> \<le> 1 / 256"
  proof -
    have "\<bar>?w\<bar> < 2 powi 17" using w by simp
    from nearest_f32_error_bound[OF this] show ?thesis by (simp add: power_int_minus)
  qed
  have "ema_blend (Finite e) s = Finite (nearest_f32 ?w)"
    by (simp only: ema_blend_def one_minus_alpha one_minus_alpha[unfolded EMA_ALPHA_value]
        EMA_ALPHA_value f32_of_u16_eq f32_mul.simps f32_add.simps p(1) q(1) y(1))
  moreover have "\<bar>nearest_f32 ?w - (?x + ?z)\<bar> \<le> 13 / 2048"
    using ex ez ew by linarith
  ultimately show ?thesis using y(2) by simp
qed

lemma ema_step_init: "ema_step emaRaw_init s = ema_blend (f32_of_u16 s) s"
  by (simp add: ema_step_def emaRaw_init_def Let_def)

lemma ema_step_nonneg: "0 \<le> e \<Longrightarrow> ema_step (Finite e) s = ema_blend (Finite e) s"
  by (simp add: ema_step_def Let_def)

lemma ema_first_close:
  "\<exists>y. ema_step emaRaw_init s = Finite y \<and> 0 \<le> y \<and> \<bar>y - of_int (uint s)\<bar> \<le> 1 / 128"
proof -
  let ?sr = "of_int (uint s) :: rat"
  note sr = u16_rat_bounds[of s]
  have e: "0 \<le> ?sr" "?sr \<le> 65535 + 1 / 16" using sr by simp_all
  let ?y = "nearest_f32 (nearest_f32 (13421773 / 67108864 * ?sr) + nearest_f32 (13421773 / 16777216 * ?sr))"
  from ema_blend_close[OF e, of s]
  have b: "ema_blend (Finite ?sr) s = Finite ?y" "0 \<le> ?y"
    "\<bar>?y - (13421773 / 67108864 * ?sr + 13421773 / 16777216 * ?sr)\<bar> \<le> 13 / 2048"
    by simp_all
  have "\<bar>?y - ?sr\<bar> \<le> 1 / 128" using b(3) sr by linarith
  moreover have "ema_step emaRaw_init s = Finite ?y"
    by (simp only: ema_step_init f32_of_u16_eq b(1))
  ultimately show ?thesis using b(2) by blast
qed

lemma emaRounded_near:
  assumes "\<bar>y - of_int (uint (s :: u16))\<bar> \<le> 1 / 128"
  shows "emaRounded (Finite y) = Some s"
proof -
  let ?n = "uint s"
  have n: "0 \<le> ?n" "?n \<le> 65535" using uint_u16_bounds[of s] by simp_all
  note sr = u16_rat_bounds[of s]
  let ?lo = "of_int (128 * ?n + 63) * 2 powi (- 7) :: rat"
  let ?hi = "of_int (128 * ?n + 65) * 2 powi (- 7) :: rat"
  have lo: "?lo = of_int ?n + 63 / 128" and hi: "?hi = of_int ?n + 65 / 128"
    by (simp_all add: power_int_minus field_simps)
  have nlo: "nearest_f32 ?lo = ?lo"
  proof (rule nearest_f32_exact[OF refl])
    show "\<bar>?lo\<bar> < 2 powi (- 7 + 24)" unfolding lo using sr by simp
  qed simp
  have nhi: "nearest_f32 ?hi = ?hi"
  proof (rule nearest_f32_exact[OF refl])
    show "\<bar>?hi\<bar> < 2 powi (- 7 + 24)" unfolding hi using sr by simp
  qed simp
  have b: "?lo \<le> y + 1 / 2" "y + 1 / 2 \<le> ?hi" unfolding lo hi using assms by linarith+
  have "- (2 powi 128) < ?lo" "?hi < 2 powi 128" unfolding lo hi using sr by simp_all
  from round_f32_between[OF b nlo nhi this]
  have r: "round_f32 (y + 1 / 2) = Finite (nearest_f32 (y + 1 / 2))"
    "of_int ?n + 63 / 128 \<le> nearest_f32 (y + 1 / 2)" "nearest_f32 (y + 1 / 2) \<le> of_int ?n + 65 / 128"
    unfolding lo hi by simp_all
  have fl: "\<lfloor>nearest_f32 (y + 1 / 2)\<rfloor> = ?n"
    using r(2,3) by (intro floor_unique) linarith+
  have nn: "0 \<le> nearest_f32 (y + 1 / 2)" using r(2) sr by linarith
  show ?thesis
    using n by (simp add: emaRounded_def r(1) fl nn Let_def)
qed

lemma ema_run_snoc: "ema_run e (ps @ [s]) = ema_step (ema_run e ps) s"
  by (induction ps arbitrary: e) auto

lemma ema_step_invariant:
  assumes "0 \<le> e" "e \<le> 65535 + 1 / 16"
  shows "\<exists>y. ema_step (Finite e) s = Finite y \<and> 0 \<le> y \<and> y \<le> 65535 + 1 / 16"
proof -
  let ?sr = "of_int (uint s) :: rat"
  note sr = u16_rat_bounds[of s]
  let ?y = "nearest_f32 (nearest_f32 (13421773 / 67108864 * ?sr) + nearest_f32 (13421773 / 16777216 * e))"
  from ema_blend_close[OF assms, of s]
  have b: "ema_blend (Finite e) s = Finite ?y" "0 \<le> ?y"
    "\<bar>?y - (13421773 / 67108864 * ?sr + 13421773 / 16777216 * e)\<bar> \<le> 13 / 2048"
    by simp_all
  have "?y \<le> 65535 + 1 / 16" using b(3) sr assms by linarith
  then show ?thesis using b(1,2) assms(1) by (simp add: ema_step_nonneg)
qed

lemma ema_run_invariant_from:
  assumes "0 \<le> e" "e \<le> 65535 + 1 / 16"
  shows "\<exists>y. ema_run (Finite e) ps = Finite y \<and> 0 \<le> y \<and> y \<le> 65535 + 1 / 16"
  using assms
proof (induction ps arbitrary: e)
  case Nil
  then show ?case by simp
next
  case (Cons s ps)
  from ema_step_invariant[OF Cons.prems, of s]
  obtain y where "ema_step (Finite e) s = Finite y" "0 \<le> y" "y \<le> 65535 + 1 / 16" by blast
  with Cons.IH[of y] show ?case by simp
qed

lemma ema_run_invariant:
  assumes "ps \<noteq> []"
  shows "\<exists>y. ema_run emaRaw_init ps = Finite y \<and> 0 \<le> y \<and> y \<le> 65535 + 1 / 16"
proof -
  from assms obtain s rest where ps: "ps = s # rest" by (cases ps) auto
  from ema_first_close[of s] obtain y where
    y: "ema_step emaRaw_init s = Finite y" "0 \<le> y" "\<bar>y - of_int (uint s)\<bar> \<le> 1 / 128" by blast
  have "y \<le> 65535 + 1 / 16" using y(3) u16_rat_bounds[of s] by linarith
  from ema_run_invariant_from[OF y(2) this, of rest] show ?thesis by (simp add: ps y(1))
qed

section \<open>The claims\<close>

text \<open>
  Claim C1. The claim asks that the index mapper, called with a loaded calibration whose
  \<^verbatim>\<open>clearRaw\<close> equals \<^verbatim>\<open>cloudyRaw\<close>, return one fixed fallback value instead of
  dividing by zero. The firmware's mapper has no such guard. Two long presses that both
  sample 500 leave exactly such a calibration loaded; with it the quotient \<^verbatim>\<open>t\<close> is an
  infinity or a NaN, the index is 100 for a raw value of 400 and 0 for a raw value of 600,
  and for a raw value of 500 the conversion of a NaN to \<^verbatim>\<open>int\<close> is undefined.
\<close>

theorem degenerate_calibration_divides_by_zero:
  "calLoaded (run_loop [(True, \<lambda>_. 500), (True, \<lambda>_. 500)] (setup_cal fresh_eeprom)) \<and>
   clearRaw (cal (run_loop [(True, \<lambda>_. 500), (True, \<lambda>_. 500)] (setup_cal fresh_eeprom))) = 500 \<and>
   cloudyRaw (cal (run_loop [(True, \<lambda>_. 500), (True, \<lambda>_. 500)] (setup_cal fresh_eeprom))) = 500 \<and>
   mapper_t 500 500 400 = PInf \<and> mapper_t 500 500 600 = NInf \<and> mapper_t 500 500 500 = NaN \<and>
   computeTurbidityIndex (run_loop [(True, \<lambda>_. 500), (True, \<lambda>_. 500)] (setup_cal fresh_eeprom)) 400
     = Some 100 \<and>
   computeTurbidityIndex (run_loop [(True, \<lambda>_. 500), (True, \<lambda>_. 500)] (setup_cal fresh_eeprom)) 600
     = Some 0 \<and>
   computeTurbidityIndex (run_loop [(True, \<lambda>_. 500), (True, \<lambda>_. 500)] (setup_cal fresh_eeprom)) 500
     = None"
proof -
  let ?s = "run_loop [(True, \<lambda>_. 500), (True, \<lambda>_. 500)] (setup_cal fresh_eeprom)"
  have l: "calLoaded ?s" and c: "clearRaw (cal ?s) = 500" and d: "cloudyRaw (cal ?s) = 500"
    unfolding run_two_presses_same by (simp_all add: save_facts)
  have eq: "clearRaw (cal ?s) = cloudyRaw (cal ?s)" by (simp only: c d)
  have t: "mapper_t 500 500 400 = PInf" "mapper_t 500 500 600 = NInf" "mapper_t 500 500 500 = NaN"
    by (simp_all add: mapper_t_degenerate)
  have i: "computeTurbidityIndex ?s 400 = Some 100" "computeTurbidityIndex ?s 600 = Some 0"
    "computeTurbidityIndex ?s 500 = None"
    unfolding computeTurbidityIndex_degenerate[OF l eq] c by simp_all
  from l c d t i show ?thesis by simp
qed

text \<open>
  Claim C2. The claim asks that every record committed by \<^verbatim>\<open>saveCalibration\<close> have the
  expected signature, a matching checksum and \<^verbatim>\<open>clearRaw\<close> different from
  \<^verbatim>\<open>cloudyRaw\<close>. Signature and checksum hold for all arguments, but called with two
  equal values the function commits the record and marks it loaded with
  \<^verbatim>\<open>clearRaw = cloudyRaw\<close>; \<^verbatim>\<open>loadCalibration\<close> refuses that same record when it
  reads it back.
\<close>

theorem saveCalibration_degenerate:
  "calLoaded (saveCalibration c c s) \<and>
   magic (cal (saveCalibration c c s)) = CAL_MAGIC \<and>
   crc (cal (saveCalibration c c s)) = checksum16 (cal (saveCalibration c c s)) \<and>
   clearRaw (cal (saveCalibration c c s)) = cloudyRaw (cal (saveCalibration c c s)) \<and>
   EEPROM_get (EEPROM (saveCalibration c c s)) EEPROM_ADDR = cal (saveCalibration c c s) \<and>
   \<not> calLoaded (loadCalibration (saveCalibration c c s))"
proof -
  have e: "EEPROM_get (EEPROM (saveCalibration c c s)) EEPROM_ADDR = sealed_record c c"
    by (simp add: save_facts saveCalibration_cal)
  have "\<not> calLoaded (loadCalibration (saveCalibration c c s))"
    by (simp add: loadCalibration_calLoaded e Let_def)
  then show ?thesis
    using save_facts[of c c s] by simp
qed

text \<open>
  Claim C3. For every content of the EEPROM, \<^verbatim>\<open>loadCalibration\<close> sets \<^verbatim>\<open>calLoaded\<close>
  exactly when the record read has the signature \<^verbatim>\<open>CAL_MAGIC\<close>, its \<^verbatim>\<open>crc\<close> field
  equals the recomputed checksum and \<^verbatim>\<open>clearRaw\<close> differs from \<^verbatim>\<open>cloudyRaw\<close>. In every
  case it returns, with the record read in \<^verbatim>\<open>cal\<close> and the EEPROM and the stage
  unchanged. A stored record with valid signature and checksum is loaded exactly when its
  two values differ; with equal values it is rejected.
\<close>

theorem loadCalibration_loaded_iff:
  "(calLoaded (loadCalibration s) \<longleftrightarrow>
      magic (EEPROM_get (EEPROM s) EEPROM_ADDR) = CAL_MAGIC \<and>
      crc (EEPROM_get (EEPROM s) EEPROM_ADDR) = checksum16 (EEPROM_get (EEPROM s) EEPROM_ADDR) \<and>
      clearRaw (EEPROM_get (EEPROM s) EEPROM_ADDR) \<noteq> cloudyRaw (EEPROM_get (EEPROM s) EEPROM_ADDR))
   \<and> cal (loadCalibration s) = EEPROM_get (EEPROM s) EEPROM_ADDR
   \<and> EEPROM (loadCalibration s) = EEPROM s
   \<and> calStage (loadCalibration s) = calStage s
   \<and> \<not> calLoaded (loadCalibration (s\<lparr>EEPROM := EEPROM_put (EEPROM s) EEPROM_ADDR (sealed_record c c)\<rparr>))
   \<and> (calLoaded (loadCalibration (s\<lparr>EEPROM := EEPROM_put (EEPROM s) EEPROM_ADDR (sealed_record c d)\<rparr>))
        \<longleftrightarrow> c \<noteq> d)"
  by (simp add: loadCalibration_def Let_def EEPROM_get_put sealed_record_crc)

text \<open>
  Claim C4. For an odd number \<open>n\<close> of samples (31 in the firmware) the sampler returns the
  element at position \<open>n div 2\<close> of the sorted samples. It is one of the samples, and fewer
  than half of the samples are smaller and fewer than half are larger, counted with
  repetitions: it is the median of the multiset of samples.
\<close>

theorem sampler_median:
  assumes "odd (unat n)"
  shows "readTurbidityMedian_n n adc = sort (readSamples n adc) ! (unat n div 2) \<and>
         readTurbidityMedian_n n adc \<in> set (readSamples n adc) \<and>
         2 * size {#x \<in># mset (readSamples n adc). x < readTurbidityMedian_n n adc#} < unat n \<and>
         2 * size {#x \<in># mset (readSamples n adc). readTurbidityMedian_n n adc < x#} < unat n"
proof -
  let ?xs = "readSamples n adc"
  let ?ys = "sort ?xs"
  let ?k = "unat n div 2"
  let ?m = "readTurbidityMedian_n n adc"
  have m: "?m = ?ys ! ?k" by (rule readTurbidityMedian_n_sort)
  from assms have n: "unat n = 2 * ?k + 1" by presburger
  have len: "length ?ys = unat n" by (simp add: length_readSamples)
  with n have k: "?k < length ?ys" by simp
  then have "?ys ! ?k \<in> set ?ys" by (rule nth_mem)
  then have mem: "?m \<in> set ?xs" by (simp add: m)
  have e: "mset ?xs = mset ?ys" by simp
  have "size {#x \<in># mset ?xs. x < ?m#} = size {#x \<in># mset ?ys. x < ?ys ! ?k#}"
    unfolding e m ..
  also have "\<dots> = length (filter (\<lambda>x. x < ?ys ! ?k) ?ys)"
    by (simp only: mset_filter[symmetric] size_mset)
  also have "\<dots> \<le> ?k" using k by (intro sorted_count_less) simp_all
  finally have less: "2 * size {#x \<in># mset ?xs. x < ?m#} < unat n" using n by linarith
  have "size {#x \<in># mset ?xs. ?m < x#} = size {#x \<in># mset ?ys. ?ys ! ?k < x#}"
    unfolding e m ..
  also have "\<dots> = length (filter (\<lambda>x. ?ys ! ?k < x) ?ys)"
    by (simp only: mset_filter[symmetric] size_mset)
  also have "\<dots> \<le> length ?ys - Suc ?k" using k by (intro sorted_count_greater) simp_all
  finally have greater: "2 * size {#x \<in># mset ?xs. ?m < x#} < unat n" using n len by linarith
  from m mem less greater show ?thesis by blast
qed

theorem sampler_median_witness:
  "odd (unat MEDIAN_SAMPLE_COUNT) \<and>
   readTurbidityMedian burst1 = 514 \<and>
   sort (readSamples MEDIAN_SAMPLE_COUNT burst1) ! 15 = 514"
proof -
  have o: "odd (unat MEDIAN_SAMPLE_COUNT)" by (simp add: MEDIAN_SAMPLE_COUNT_def)
  have v: "readTurbidityMedian burst1 = 514" by code_simp
  have d: "unat MEDIAN_SAMPLE_COUNT div 2 = 15" by (simp add: MEDIAN_SAMPLE_COUNT_def)
  from sampler_median[OF o, of burst1] o v d show ?thesis
    by (simp add: readTurbidityMedian_def)
qed




text \<open>
  Claim C6, amended. With a loaded calibration whose two references differ, \<^verbatim>\<open>t\<close> is the
  binary32 nearest to \<open>(raw - low) / (high - low)\<close>, oriented by the comparison of
  \<^verbatim>\<open>cloudyRaw\<close> with \<^verbatim>\<open>clearRaw\<close>, and the index is \<open>t\<close> clamped to \<open>[0, 1]\<close>, multiplied
  by 100, increased by one half and truncated, every operation rounded to binary32. It
  differs from the exact \<open>100 * t\<close> by at most one half and \<open>1 / 65536\<close>; it lies between
  the round-half-up values of \<open>100 * t - 1 / 65536\<close> and \<open>100 * t + 1 / 65536\<close>, so it is
  the round-half-up value of \<open>100 * t\<close> or next to it; and it is that value, ties included,
  whenever none of the three operations rounds. With \<^verbatim>\<open>clearRaw = 900\<close> and
  \<^verbatim>\<open>cloudyRaw = 300\<close> the raw values 900, 300 and 600 give 0, 100 and exactly 50; with
  the references exchanged, 300 gives 0 and 900 gives 100.
\<close>

theorem index_mapper_calibrated:
  "(calLoaded s \<and> clearRaw (cal s) \<noteq> cloudyRaw (cal s) \<longrightarrow>
      mapper_t (clearRaw (cal s)) (cloudyRaw (cal s)) raw
        = Finite (nearest_f32 (oriented_fraction (clearRaw (cal s)) (cloudyRaw (cal s)) raw)) \<and>
      computeTurbidityIndex s raw
        = Some (scale_index (nearest_f32 (oriented_fraction (clearRaw (cal s)) (cloudyRaw (cal s)) raw))) \<and>
      \<bar>of_int (scale_index (nearest_f32 (oriented_fraction (clearRaw (cal s)) (cloudyRaw (cal s)) raw)))
         - 100 * clamp01 (oriented_fraction (clearRaw (cal s)) (cloudyRaw (cal s)) raw)\<bar>
        \<le> 1 / 2 + 1 / 65536 \<and>
      \<lfloor>100 * clamp01 (oriented_fraction (clearRaw (cal s)) (cloudyRaw (cal s)) raw) + 1 / 2 - 1 / 65536\<rfloor>
        \<le> scale_index (nearest_f32 (oriented_fraction (clearRaw (cal s)) (cloudyRaw (cal s)) raw)) \<and>
      scale_index (nearest_f32 (oriented_fraction (clearRaw (cal s)) (cloudyRaw (cal s)) raw))
        \<le> \<lfloor>100 * clamp01 (oriented_fraction (clearRaw (cal s)) (cloudyRaw (cal s)) raw) + 1 / 2 + 1 / 65536\<rfloor> \<and>
      \<bar>scale_index (nearest_f32 (oriented_fraction (clearRaw (cal s)) (cloudyRaw (cal s)) raw))
         - round_half_up (100 * clamp01 (oriented_fraction (clearRaw (cal s)) (cloudyRaw (cal s)) raw))\<bar> \<le> 1 \<and>
      (nearest_f32 (oriented_fraction (clearRaw (cal s)) (cloudyRaw (cal s)) raw) = oriented_fraction (clearRaw (cal s)) (cloudyRaw (cal s)) raw \<and>
       nearest_f32 (clamp01 (oriented_fraction (clearRaw (cal s)) (cloudyRaw (cal s)) raw) * 100) = clamp01 (oriented_fraction (clearRaw (cal s)) (cloudyRaw (cal s)) raw) * 100 \<and>
       nearest_f32 (clamp01 (oriented_fraction (clearRaw (cal s)) (cloudyRaw (cal s)) raw) * 100 + 1 / 2) = clamp01 (oriented_fraction (clearRaw (cal s)) (cloudyRaw (cal s)) raw) * 100 + 1 / 2 \<longrightarrow>
       computeTurbidityIndex s raw = Some (round_half_up (100 * clamp01 (oriented_fraction (clearRaw (cal s)) (cloudyRaw (cal s)) raw))))) \<and>
   (calLoaded s \<and> clearRaw (cal s) = 900 \<and> cloudyRaw (cal s) = 300 \<longrightarrow>
      computeTurbidityIndex s 900 = Some 0 \<and> computeTurbidityIndex s 300 = Some 100 \<and>
      computeTurbidityIndex s 600 = Some 50) \<and>
   (calLoaded s \<and> clearRaw (cal s) = 300 \<and> cloudyRaw (cal s) = 900 \<longrightarrow>
      computeTurbidityIndex s 300 = Some 0 \<and> computeTurbidityIndex s 900 = Some 100)"
proof (intro conjI impI)
  assume a: "calLoaded s \<and> clearRaw (cal s) \<noteq> cloudyRaw (cal s)"
  then show "mapper_t (clearRaw (cal s)) (cloudyRaw (cal s)) raw
        = Finite (nearest_f32 (oriented_fraction (clearRaw (cal s)) (cloudyRaw (cal s)) raw))"
    by (simp add: mapper_t_regular cal_quotient_oriented)
  from a show "computeTurbidityIndex s raw
        = Some (scale_index (nearest_f32 (oriented_fraction (clearRaw (cal s)) (cloudyRaw (cal s)) raw)))"
    by (simp add: computeTurbidityIndex_calibrated cal_quotient_oriented)
  show "\<bar>of_int (scale_index (nearest_f32 (oriented_fraction (clearRaw (cal s)) (cloudyRaw (cal s)) raw)))
         - 100 * clamp01 (oriented_fraction (clearRaw (cal s)) (cloudyRaw (cal s)) raw)\<bar>
        \<le> 1 / 2 + 1 / 65536"
    by (rule scale_index_accuracy)
  show "\<lfloor>100 * clamp01 (oriented_fraction (clearRaw (cal s)) (cloudyRaw (cal s)) raw) + 1 / 2 - 1 / 65536\<rfloor>
        \<le> scale_index (nearest_f32 (oriented_fraction (clearRaw (cal s)) (cloudyRaw (cal s)) raw))"
    using scale_index_sandwich[of "oriented_fraction (clearRaw (cal s)) (cloudyRaw (cal s)) raw"] by simp
  show "scale_index (nearest_f32 (oriented_fraction (clearRaw (cal s)) (cloudyRaw (cal s)) raw))
        \<le> \<lfloor>100 * clamp01 (oriented_fraction (clearRaw (cal s)) (cloudyRaw (cal s)) raw) + 1 / 2 + 1 / 65536\<rfloor>"
    using scale_index_sandwich[of "oriented_fraction (clearRaw (cal s)) (cloudyRaw (cal s)) raw"] by simp
  show "\<bar>scale_index (nearest_f32 (oriented_fraction (clearRaw (cal s)) (cloudyRaw (cal s)) raw))
         - round_half_up (100 * clamp01 (oriented_fraction (clearRaw (cal s)) (cloudyRaw (cal s)) raw))\<bar> \<le> 1"
    by (rule scale_index_near_round_half_up)
next
  assume a: "calLoaded s \<and> clearRaw (cal s) \<noteq> cloudyRaw (cal s)"
  assume e: "nearest_f32 (oriented_fraction (clearRaw (cal s)) (cloudyRaw (cal s)) raw) = oriented_fraction (clearRaw (cal s)) (cloudyRaw (cal s)) raw \<and>
       nearest_f32 (clamp01 (oriented_fraction (clearRaw (cal s)) (cloudyRaw (cal s)) raw) * 100) = clamp01 (oriented_fraction (clearRaw (cal s)) (cloudyRaw (cal s)) raw) * 100 \<and>
       nearest_f32 (clamp01 (oriented_fraction (clearRaw (cal s)) (cloudyRaw (cal s)) raw) * 100 + 1 / 2) = clamp01 (oriented_fraction (clearRaw (cal s)) (cloudyRaw (cal s)) raw) * 100 + 1 / 2"
  from e have "scale_index (nearest_f32 (oriented_fraction (clearRaw (cal s)) (cloudyRaw (cal s)) raw)) = round_half_up (100 * clamp01 (oriented_fraction (clearRaw (cal s)) (cloudyRaw (cal s)) raw))"
    by (intro scale_index_unrounded) simp_all
  with a show "computeTurbidityIndex s raw = Some (round_half_up (100 * clamp01 (oriented_fraction (clearRaw (cal s)) (cloudyRaw (cal s)) raw)))"
    by (simp add: computeTurbidityIndex_calibrated cal_quotient_oriented)
next
  assume a: "calLoaded s \<and> clearRaw (cal s) = 900 \<and> cloudyRaw (cal s) = 300"
  then have f: "computeTurbidityIndex s r = Some (scale_index (nearest_f32 (cal_quotient 900 300 r)))" for r
    using computeTurbidityIndex_calibrated[of s r] by simp
  have q: "cal_quotient 900 300 900 = 0" "cal_quotient 900 300 300 = 1" "cal_quotient 900 300 600 = 1 / 2"
    by (simp_all add: cal_quotient_def)
  show "computeTurbidityIndex s 900 = Some 0"
    by (simp add: f q scale_index_low)
  show "computeTurbidityIndex s 300 = Some 100"
    by (simp add: f q nearest_1 scale_index_high)
  show "computeTurbidityIndex s 600 = Some 50"
    by (simp only: f q scale_index_half)
next
  assume a: "calLoaded s \<and> clearRaw (cal s) = 300 \<and> cloudyRaw (cal s) = 900"
  then have f: "computeTurbidityIndex s r = Some (scale_index (nearest_f32 (cal_quotient 300 900 r)))" for r
    using computeTurbidityIndex_calibrated[of s r] by simp
  have q: "cal_quotient 300 900 300 = 0" "cal_quotient 300 900 900 = 1"
    by (simp_all add: cal_quotient_def)
  show "computeTurbidityIndex s 300 = Some 0"
    by (simp add: f q scale_index_low)
  show "computeTurbidityIndex s 900 = Some 100"
    by (simp add: f q nearest_1 scale_index_high)
qed

theorem index_mapper_calibrated_witness:
  "calLoaded (loaded_state 900 300) \<and>
   clearRaw (cal (loaded_state 900 300)) \<noteq> cloudyRaw (cal (loaded_state 900 300)) \<and>
   oriented_fraction 900 300 600 = 1 / 2 \<and>
   mapper_t 900 300 600 = Finite (1 / 2) \<and>
   computeTurbidityIndex (loaded_state 900 300) 600 = Some 50 \<and>
   computeTurbidityIndex (loaded_state 900 300) 900 = Some 0 \<and>
   computeTurbidityIndex (loaded_state 900 300) 300 = Some 100 \<and>
   computeTurbidityIndex (loaded_state 300 900) 300 = Some 0 \<and>
   computeTurbidityIndex (loaded_state 300 900) 900 = Some 100 \<and>
   nearest_f32 (oriented_fraction 0 8 1) = oriented_fraction 0 8 1 \<and>
   round_half_up (100 * clamp01 (oriented_fraction 0 8 1)) = 13 \<and>
   computeTurbidityIndex (loaded_state 0 8) 1 = Some 13"
proof -
  have o: "oriented_fraction 900 300 600 = 1 / 2"
    by (simp add: oriented_fraction_def Let_def)
  have h: "scale_index (1 / 2) = 50"
    using scale_index_half by (simp only: nearest_half)
  have first: "calLoaded (loaded_state 900 300) \<and>
     clearRaw (cal (loaded_state 900 300)) \<noteq> cloudyRaw (cal (loaded_state 900 300)) \<and>
     oriented_fraction 900 300 600 = 1 / 2 \<and>
     mapper_t 900 300 600 = Finite (1 / 2) \<and>
     computeTurbidityIndex (loaded_state 900 300) 600 = Some 50 \<and>
     computeTurbidityIndex (loaded_state 900 300) 900 = Some 0 \<and>
     computeTurbidityIndex (loaded_state 900 300) 300 = Some 100 \<and>
     computeTurbidityIndex (loaded_state 300 900) 300 = Some 0 \<and>
     computeTurbidityIndex (loaded_state 300 900) 900 = Some 100"
    using index_mapper_calibrated[of "loaded_state 900 300" 600]
      index_mapper_calibrated[of "loaded_state 300 900" 600]
    by (simp add: o h nearest_half)
  have t: "oriented_fraction 0 8 1 = 1 / 8" by (simp add: oriented_fraction_def Let_def)
  have c: "clamp01 (1 / 8) = 1 / 8" by (simp add: clamp01_def Let_def)
  have n1: "nearest_f32 (1 / 8) = 1 / 8"
    by (rule nearest_f32_exact[where m = 1 and k = "- 3"]) (simp_all add: power_int_minus)
  have n2: "nearest_f32 (25 / 2) = 25 / 2" using nearest_f32_half[of 25] by simp
  have n3: "nearest_f32 13 = 13" using nearest_f32_of_int[of 13] by simp
  have r: "round_half_up (25 / 2) = 13" by (simp add: round_half_up_def)
  have tie: "nearest_f32 (oriented_fraction 0 8 1) = oriented_fraction 0 8 1 \<and>
     round_half_up (100 * clamp01 (oriented_fraction 0 8 1)) = 13 \<and>
     computeTurbidityIndex (loaded_state 0 8) 1 = Some 13"
  proof -
    let ?s = "loaded_state 0 8"
    let ?q = "oriented_fraction (clearRaw (cal ?s)) (cloudyRaw (cal ?s)) 1"
    have pre: "calLoaded ?s \<and> clearRaw (cal ?s) \<noteq> cloudyRaw (cal ?s)" by simp
    have q: "?q = 1 / 8" using t by simp
    have ex: "nearest_f32 ?q = ?q \<and>
       nearest_f32 (clamp01 ?q * 100) = clamp01 ?q * 100 \<and>
       nearest_f32 (clamp01 ?q * 100 + 1 / 2) = clamp01 ?q * 100 + 1 / 2"
      unfolding q c using n1 n2 n3 by simp
    from index_mapper_calibrated[of ?s 1] pre ex
    have "computeTurbidityIndex ?s 1 = Some (round_half_up (100 * clamp01 ?q))"
      by blast
    then have "computeTurbidityIndex ?s 1 = Some 13"
      unfolding q c using r by simp
    moreover have "nearest_f32 (oriented_fraction 0 8 1) = oriented_fraction 0 8 1"
      unfolding t by (rule n1)
    moreover have "round_half_up (100 * clamp01 (oriented_fraction 0 8 1)) = 13"
      unfolding t c using r by simp
    ultimately show ?thesis by blast
  qed
  from first tie show ?thesis by blast
qed

text \<open>
  The claim's scaling with round-half-up of the exact \<open>t\<close> fails where rounding moves a
  tie: between the references 300 and 500 the raw value 359 has \<open>100 * t = 29.5\<close>, which
  rounds half up to 30, and the mapper returns 29.
\<close>

theorem index_mapper_round_half_up_counterexample:
  "computeTurbidityIndex (loaded_state 300 500) 359 = Some 29 \<and>
   round_half_up (100 * clamp01 (oriented_fraction 300 500 359)) = 30 \<and>
   computeTurbidityIndex (loaded_state 300 500) 359
     \<noteq> Some (round_half_up (100 * clamp01 (oriented_fraction 300 500 359)))"
proof -
  have q: "cal_quotient 300 500 359 = 59 / 200" by (simp add: cal_quotient_def)
  have a: "computeTurbidityIndex (loaded_state 300 500) 359 = Some 29"
    using computeTurbidityIndex_calibrated[of "loaded_state 300 500" 359]
    by (simp add: q scale_index_59_200)
  have o: "oriented_fraction 300 500 359 = 59 / 200"
    by (simp add: oriented_fraction_def Let_def)
  have c: "clamp01 (59 / 200) = 59 / 200" by (simp add: clamp01_def Let_def)
  have r: "round_half_up (100 * clamp01 (oriented_fraction 300 500 359)) = 30"
    by (simp add: o c round_half_up_def)
  show ?thesis unfolding a r by simp
qed

text \<open>
  Claim C7. Without a loaded calibration, and with a loaded one whose references differ,
  the mapper returns an integer from 0 to 100 for every raw value. With a loaded
  calibration a raw value at or beyond the clear reference gives exactly 0 and one at or
  beyond the cloudy reference gives exactly 100; so every raw value outside the interval
  between the two references gives 0 or 100.
\<close>

theorem index_mapper_range:
  "(\<not> calLoaded s \<or> clearRaw (cal s) \<noteq> cloudyRaw (cal s) \<longrightarrow>
      (\<exists>idx. computeTurbidityIndex s raw = Some idx \<and> 0 \<le> idx \<and> idx \<le> 100)) \<and>
   (calLoaded s \<and> (clearRaw (cal s) < cloudyRaw (cal s) \<and> raw \<le> clearRaw (cal s) \<or>
                    cloudyRaw (cal s) < clearRaw (cal s) \<and> clearRaw (cal s) \<le> raw) \<longrightarrow>
      computeTurbidityIndex s raw = Some 0) \<and>
   (calLoaded s \<and> (clearRaw (cal s) < cloudyRaw (cal s) \<and> cloudyRaw (cal s) \<le> raw \<or>
                    cloudyRaw (cal s) < clearRaw (cal s) \<and> raw \<le> cloudyRaw (cal s)) \<longrightarrow>
      computeTurbidityIndex s raw = Some 100) \<and>
   (calLoaded s \<and> clearRaw (cal s) \<noteq> cloudyRaw (cal s) \<and>
      (raw < min (clearRaw (cal s)) (cloudyRaw (cal s)) \<or>
       max (clearRaw (cal s)) (cloudyRaw (cal s)) < raw) \<longrightarrow>
      computeTurbidityIndex s raw = Some 0 \<or> computeTurbidityIndex s raw = Some 100)"
proof -
  let ?c = "clearRaw (cal s)" and ?d = "cloudyRaw (cal s)"
  have range: "\<exists>idx. computeTurbidityIndex s raw = Some idx \<and> 0 \<le> idx \<and> idx \<le> 100"
    if "\<not> calLoaded s \<or> ?c \<noteq> ?d"
  proof (cases "calLoaded s")
    case False
    then show ?thesis by (rule computeTurbidityIndex_uncalibrated)
  next
    case True
    with that have "?c \<noteq> ?d" by simp
    from computeTurbidityIndex_calibrated[OF True this, of raw] scale_index_range show ?thesis
      by simp
  qed
  have zero: "computeTurbidityIndex s raw = Some 0"
    if "calLoaded s" "?c < ?d \<and> raw \<le> ?c \<or> ?d < ?c \<and> ?c \<le> raw"
  proof -
    from that(2) have ne: "?c \<noteq> ?d" by auto
    from cal_quotient_clear_side[OF ne that(2)] show ?thesis
      by (simp add: computeTurbidityIndex_calibrated[OF that(1) ne] scale_index_nearest_low)
  qed
  have full: "computeTurbidityIndex s raw = Some 100"
    if "calLoaded s" "?c < ?d \<and> ?d \<le> raw \<or> ?d < ?c \<and> raw \<le> ?d"
  proof -
    from that(2) have ne: "?c \<noteq> ?d" by auto
    from cal_quotient_cloudy_side[OF ne that(2)] show ?thesis
      by (simp add: computeTurbidityIndex_calibrated[OF that(1) ne] scale_index_nearest_high)
  qed
  have outside: "computeTurbidityIndex s raw = Some 0 \<or> computeTurbidityIndex s raw = Some 100"
    if l: "calLoaded s" and ne: "?c \<noteq> ?d" and o: "raw < min ?c ?d \<or> max ?c ?d < raw"
  proof -
    from ne have "?c < ?d \<or> ?d < ?c" by auto
    with o have "(?c < ?d \<and> raw \<le> ?c \<or> ?d < ?c \<and> ?c \<le> raw) \<or>
                 (?c < ?d \<and> ?d \<le> raw \<or> ?d < ?c \<and> raw \<le> ?d)"
      by (auto simp: min_def max_def split: if_splits)
    with zero[OF l] full[OF l] show ?thesis by blast
  qed
  from range zero full outside show ?thesis by blast
qed

theorem index_mapper_range_witness:
  "\<not> calLoaded (power_on fresh_eeprom) \<and>
   computeTurbidityIndex (power_on fresh_eeprom) 499 = Some 88 \<and>
   calLoaded (loaded_state 900 300) \<and>
   clearRaw (cal (loaded_state 900 300)) \<noteq> cloudyRaw (cal (loaded_state 900 300)) \<and>
   (1000::u16) > max 900 300 \<and> computeTurbidityIndex (loaded_state 900 300) 1000 = Some 0 \<and>
   (100::u16) < min 900 300 \<and> computeTurbidityIndex (loaded_state 900 300) 100 = Some 100"
proof -
  have u: "computeTurbidityIndex (power_on fresh_eeprom) 499 = Some 88"
    by (simp add: computeTurbidityIndex_def power_on_def map_long_def c_div_def Let_def)
  have n: "\<not> calLoaded (power_on fresh_eeprom)" by (simp add: power_on_def)
  from index_mapper_range[of "power_on fresh_eeprom" 499]
    index_mapper_range[of "loaded_state 900 300" 1000]
    index_mapper_range[of "loaded_state 900 300" 100] u n
  show ?thesis by simp
qed

text \<open>
  Claim C8. \<^verbatim>\<open>classifyStatus\<close> is a function of the index alone: CLEAR exactly below 30,
  MODERATE exactly from 30 to 69, TURBID exactly from 70 on; so 29 is CLEAR, 30 and 69 are
  MODERATE and 70 is TURBID.
\<close>

theorem classifier_bands:
  "(classifyStatus idx = ''CLEAR'' \<longleftrightarrow> idx < 30) \<and>
   (classifyStatus idx = ''MODERATE'' \<longleftrightarrow> 30 \<le> idx \<and> idx < 70) \<and>
   (classifyStatus idx = ''TURBID'' \<longleftrightarrow> 70 \<le> idx) \<and>
   classifyStatus 29 = ''CLEAR'' \<and> classifyStatus 30 = ''MODERATE'' \<and>
   classifyStatus 69 = ''MODERATE'' \<and> classifyStatus 70 = ''TURBID''"
  by (simp add: classifyStatus_def THRESH_CLEAR_def THRESH_MODERATE_def)

text \<open>
  Claim C9. When \<^verbatim>\<open>setup\<close> finds no valid calibration, the stage is \<^verbatim>\<open>CAL_NONE\<close> and
  the first loop iteration forces it to \<^verbatim>\<open>CAL_WAIT_CLEAR\<close>. The first long press, after
  any number of iterations without one, leads to \<^verbatim>\<open>CAL_WAIT_CLOUDY\<close> with nothing loaded
  yet; the second leads to \<^verbatim>\<open>CAL_DONE\<close> with the calibration loaded. The record then
  held in RAM and in the EEPROM has the median sampled at the first press as \<^verbatim>\<open>clearRaw\<close>
  and the one sampled at the second press as \<^verbatim>\<open>cloudyRaw\<close>.
\<close>

theorem calibration_flow:
  assumes nl: "\<not> calLoaded (setup_cal e)"
    and i0: "\<forall>x \<in> set idle0. \<not> fst x"
    and i1: "\<forall>x \<in> set idle1. \<not> fst x"
    and i2: "\<forall>x \<in> set idle2. \<not> fst x"
  shows "calStage (setup_cal e) = CAL_NONE \<and>
         calStage (run_loop ((False, adc0) # idle0) (setup_cal e)) = CAL_WAIT_CLEAR \<and>
         calStage (run_loop (idle0 @ [(True, adc1)] @ idle1) (setup_cal e)) = CAL_WAIT_CLOUDY \<and>
         \<not> calLoaded (run_loop (idle0 @ [(True, adc1)] @ idle1) (setup_cal e)) \<and>
         calStage (run_loop (idle0 @ [(True, adc1)] @ idle1 @ [(True, adc2)] @ idle2) (setup_cal e))
           = CAL_DONE \<and>
         calLoaded (run_loop (idle0 @ [(True, adc1)] @ idle1 @ [(True, adc2)] @ idle2) (setup_cal e)) \<and>
         cal (run_loop (idle0 @ [(True, adc1)] @ idle1 @ [(True, adc2)] @ idle2) (setup_cal e))
           = sealed_record (readTurbidityMedian adc1) (readTurbidityMedian adc2) \<and>
         EEPROM_get (EEPROM (run_loop (idle0 @ [(True, adc1)] @ idle1 @ [(True, adc2)] @ idle2)
           (setup_cal e))) EEPROM_ADDR
           = sealed_record (readTurbidityMedian adc1) (readTurbidityMedian adc2)"
proof -
  let ?s0 = "setup_cal e"
  let ?m1 = "readTurbidityMedian adc1" and ?m2 = "readTurbidityMedian adc2"
  have st0: "calStage ?s0 = CAL_NONE" by (rule setup_cal_stage)
  have forced: "calStage (run_loop ((False, adc0) # idle0) ?s0) = CAL_WAIT_CLEAR"
  proof -
    have "\<forall>x \<in> set ((False, adc0) # idle0). \<not> fst x" using i0 by simp
    from run_loop_idle_first[OF this nl st0] show ?thesis by simp
  qed
  define sa where "sa = run_loop idle0 ?s0"
  have sa: "\<not> calLoaded sa \<and> (calStage sa = CAL_NONE \<or> calStage sa = CAL_WAIT_CLEAR)"
  proof (cases "idle0 = []")
    case True
    then show ?thesis using nl st0 by (simp add: sa_def)
  next
    case False
    from run_loop_idle_first[OF i0 nl st0 False] show ?thesis using nl by (simp add: sa_def)
  qed
  define sb where "sb = loop_cal True adc1 sa"
  have sb: "sb = sa\<lparr>cal := (cal sa)\<lparr>clearRaw := ?m1\<rparr>, calStage := CAL_WAIT_CLOUDY\<rparr>"
    unfolding sb_def using sa by (intro loop_cal_capture_clear) simp_all
  define sc where "sc = run_loop idle1 sb"
  have sc: "sc = sb" unfolding sc_def by (rule run_loop_idle[OF i1]) (simp add: sb)
  have mid: "run_loop (idle0 @ [(True, adc1)] @ idle1) ?s0 = sc"
    by (simp add: run_loop_append sa_def sb_def sc_def)
  define sd where "sd = loop_cal True adc2 sc"
  have sd: "sd = (saveCalibration ?m1 ?m2 sc)\<lparr>calStage := CAL_DONE\<rparr>"
    unfolding sd_def using loop_cal_capture_cloudy[of sc adc2] by (simp add: sc sb)
  define se where "se = run_loop idle2 sd"
  have se: "se = sd" unfolding se_def by (rule run_loop_idle[OF i2]) (simp add: sd)
  have fin: "run_loop (idle0 @ [(True, adc1)] @ idle1 @ [(True, adc2)] @ idle2) ?s0 = se"
    by (simp add: run_loop_append sa_def sb_def sc_def sd_def se_def)
  have "calStage sc = CAL_WAIT_CLOUDY" "\<not> calLoaded sc" using sa by (simp_all add: sc sb)
  moreover have "calStage se = CAL_DONE" "calLoaded se" "cal se = sealed_record ?m1 ?m2"
    "EEPROM_get (EEPROM se) EEPROM_ADDR = sealed_record ?m1 ?m2"
    using save_facts[of ?m1 ?m2 sc] by (simp_all add: se sd saveCalibration_cal)
  ultimately show ?thesis
    unfolding mid fin using st0 forced by simp
qed

theorem calibration_flow_witness:
  "\<not> calLoaded (setup_cal fresh_eeprom) \<and>
   calStage (run_loop [(False, \<lambda>_. 0), (True, \<lambda>_. 900), (False, \<lambda>_. 0), (False, \<lambda>_. 0), (True, \<lambda>_. 300)]
     (setup_cal fresh_eeprom)) = CAL_DONE \<and>
   clearRaw (cal (run_loop [(False, \<lambda>_. 0), (True, \<lambda>_. 900), (False, \<lambda>_. 0), (False, \<lambda>_. 0), (True, \<lambda>_. 300)]
     (setup_cal fresh_eeprom))) = 900 \<and>
   cloudyRaw (cal (run_loop [(False, \<lambda>_. 0), (True, \<lambda>_. 900), (False, \<lambda>_. 0), (False, \<lambda>_. 0), (True, \<lambda>_. 300)]
     (setup_cal fresh_eeprom))) = 300"
proof -
  have i0: "\<forall>x \<in> set [(False, \<lambda>_::nat. 0::int)]. \<not> fst x" by simp
  have i1: "\<forall>x \<in> set [(False, \<lambda>_::nat. 0::int), (False, \<lambda>_. 0)]. \<not> fst x" by simp
  have i2: "\<forall>x \<in> set ([] :: (bool \<times> (nat \<Rightarrow> int)) list). \<not> fst x" by simp
  from calibration_flow[OF fresh_not_loaded i0 i1 i2, of "\<lambda>_. 0" "\<lambda>_. 900" "\<lambda>_. 300"]
  show ?thesis
    using fresh_not_loaded by (simp add: readTurbidityMedian_const)
qed

text \<open>
  Claim C10. \<^verbatim>\<open>updateLed\<close> writes to the pin \<^verbatim>\<open>PIN_LED\<close> only: it changes no pin mode
  and the level of no other pin. When \<^verbatim>\<open>PIN_LED\<close> is not pin 8, the pin
  \<^verbatim>\<open>STATUS_LED_PIN\<close> that \<^verbatim>\<open>setup\<close> made an output and drove low stays an output at low
  level through any sequence of LED updates, whatever the indices.
\<close>

theorem status_led_pin_untouched:
  assumes "PIN_LED \<noteq> STATUS_LED_PIN"
  shows "levels (snd (updateLed PIN_LED idx now (st, g))) STATUS_LED_PIN = levels g STATUS_LED_PIN \<and>
         modes (snd (updateLed PIN_LED idx now (st, g))) = modes g \<and>
         (\<forall>q. q \<noteq> PIN_LED \<longrightarrow> levels (snd (updateLed PIN_LED idx now (st, g))) q = levels g q) \<and>
         modes (snd (run_led PIN_LED runs (led_statics_init, setup_gpio g))) STATUS_LED_PIN = OUTPUT \<and>
         levels (snd (run_led PIN_LED runs (led_statics_init, setup_gpio g))) STATUS_LED_PIN = LOW"
  using assms updateLed_frame[of PIN_LED idx now "(st, g)"]
    run_led_frame[of PIN_LED runs "(led_statics_init, setup_gpio g)"] setup_gpio_status[of g]
  by simp

theorem status_led_pin_untouched_witness:
  "(13::int) \<noteq> STATUS_LED_PIN \<and>
   levels (snd (run_led 13 [(10, 0), (50, 1000), (90, 2000)] (led_statics_init, setup_gpio gpio_reset)))
     STATUS_LED_PIN = LOW \<and>
   levels (snd (run_led 13 [(10, 0), (50, 1000), (90, 2000)] (led_statics_init, setup_gpio gpio_reset)))
     13 = HIGH"
proof -
  have ne: "(13::int) \<noteq> STATUS_LED_PIN" by (simp add: STATUS_LED_PIN_def)
  have hi: "levels (snd (run_led 13 [(10, 0), (50, 1000), (90, 2000)]
      (led_statics_init, setup_gpio gpio_reset))) 13 = HIGH"
    by (simp add: updateLed_def Let_def digitalWrite_def THRESH_CLEAR_def THRESH_MODERATE_def
        led_statics_init_def HIGH_def LOW_def)
  from status_led_pin_untouched[OF ne, of _ _ _ gpio_reset "[(10, 0), (50, 1000), (90, 2000)]"] ne hi
  show ?thesis by simp
qed

end
